theory Spec2Isabelle
  imports Main
begin

section \<open>Strings\<close>

text \<open>
  A JavaScript string is a sequence of UTF-16 code units. The model reads a \<^typ>\<open>string\<close>
  as a sequence of code units below 256 (the Latin-1 range). Inputs with code units from
  256 on are outside the model.
\<close>

text \<open>
  The characters \<open>String.prototype.trim\<close> strips and the class \<open>\s\<close> matches
  (WhiteSpace and LineTerminator of ECMAScript), below 256: TAB, LF, VT, FF, CR, SP and NBSP.
\<close>

definition isWhiteSpace :: "char \<Rightarrow> bool" where
  "isWhiteSpace c \<longleftrightarrow>
     c \<in> set [CHR 0x09, CHR 0x0A, CHR 0x0B, CHR 0x0C, CHR 0x0D, CHR 0x20, CHR 0xA0]"

definition trim :: "string \<Rightarrow> string" where
  "trim s = rev (dropWhile isWhiteSpace (rev (dropWhile isWhiteSpace s)))"

text \<open>\<open>translate xs ys c\<close>: the character of \<open>ys\<close> at the place \<open>c\<close> has in \<open>xs\<close>, else \<open>c\<close>.\<close>

fun translate :: "string \<Rightarrow> string \<Rightarrow> char \<Rightarrow> char" where
  "translate (x # xs) (y # ys) c = (if c = x then y else translate xs ys c)"
| "translate _ _ c = c"

definition upperAZ :: string where
  "upperAZ = ''ABCDEFGHIJKLMNOPQRSTUVWXYZ''"

definition lowerAZ :: string where
  "lowerAZ = ''abcdefghijklmnopqrstuvwxyz''"

text \<open>
  Case folding of the \<open>i\<close> flag (Canonicalize, without the \<open>u\<close> flag): a code unit is
  compared by its upper-case form, and a code unit from 128 on never folds to one below
  128. Every letter the patterns of this program spell out is ASCII, so folding the ASCII
  letters decides every comparison against them.
\<close>

definition canon :: "bool \<Rightarrow> char \<Rightarrow> char" where
  "canon ci c = (if ci then translate lowerAZ upperAZ c else c)"

text \<open>
  \<open>String.prototype.toLowerCase\<close> on code units below 256: the ASCII letters, and the
  Latin-1 capitals 0xC0 to 0xDE without the multiplication sign 0xD7.
\<close>

definition upperLatin1 :: string where
  "upperLatin1 =
     [CHR 0xC0, CHR 0xC1, CHR 0xC2, CHR 0xC3, CHR 0xC4, CHR 0xC5, CHR 0xC6, CHR 0xC7,
      CHR 0xC8, CHR 0xC9, CHR 0xCA, CHR 0xCB, CHR 0xCC, CHR 0xCD, CHR 0xCE, CHR 0xCF,
      CHR 0xD0, CHR 0xD1, CHR 0xD2, CHR 0xD3, CHR 0xD4, CHR 0xD5, CHR 0xD6,
      CHR 0xD8, CHR 0xD9, CHR 0xDA, CHR 0xDB, CHR 0xDC, CHR 0xDD, CHR 0xDE]"

definition lowerLatin1 :: string where
  "lowerLatin1 =
     [CHR 0xE0, CHR 0xE1, CHR 0xE2, CHR 0xE3, CHR 0xE4, CHR 0xE5, CHR 0xE6, CHR 0xE7,
      CHR 0xE8, CHR 0xE9, CHR 0xEA, CHR 0xEB, CHR 0xEC, CHR 0xED, CHR 0xEE, CHR 0xEF,
      CHR 0xF0, CHR 0xF1, CHR 0xF2, CHR 0xF3, CHR 0xF4, CHR 0xF5, CHR 0xF6,
      CHR 0xF8, CHR 0xF9, CHR 0xFA, CHR 0xFB, CHR 0xFC, CHR 0xFD, CHR 0xFE]"

definition toLowerCase :: "string \<Rightarrow> string" where
  "toLowerCase s = map (translate (upperAZ @ upperLatin1) (lowerAZ @ lowerLatin1)) s"

text \<open>\<open>haystack.includes(needle)\<close>.\<close>

fun js_includes :: "string \<Rightarrow> string \<Rightarrow> bool" where
  "js_includes [] needle = (needle = [])"
| "js_includes (c # cs) needle =
     (take (length needle) (c # cs) = needle \<or> js_includes cs needle)"

section \<open>Regular expressions\<close>

text \<open>
  The program's patterns use literals, character classes, greedy and lazy repetition of a
  character class, the greedy option, alternation, capture groups and the two anchors.
  \<open>rmatch\<close> is the backtracking matcher of ECMAScript in continuation-passing style:
  \<open>rmatch ci n r k s cs\<close> matches \<open>r\<close> at the front of \<open>s\<close> and hands the rest of the
  input and the captures to the continuation \<open>k\<close>; when \<open>k\<close> fails, the next
  alternative of \<open>r\<close> is tried, in the order of the specification (the left alternative
  first; a greedy repetition longest first, a lazy one shortest first). \<open>n\<close> is the
  length of the whole input, by which \<open>^\<close> knows the start; \<open>ci\<close> is the \<open>i\<close> flag.
\<close>

datatype cclass =
    Digit              \<comment> \<open>\<open>\d\<close>\<close>
  | Alpha              \<comment> \<open>\<open>[A-Za-z]\<close>\<close>
  | Space              \<comment> \<open>\<open>\s\<close>\<close>
  | Dot                \<comment> \<open>\<open>.\<close>: anything but a line terminator\<close>
  | OneOf string       \<comment> \<open>\<open>[abc]\<close>\<close>
  | NoneOf string      \<comment> \<open>\<open>[^abc]\<close>\<close>

fun in_class :: "cclass \<Rightarrow> char \<Rightarrow> bool" where
  "in_class Digit c = (c \<in> set ''0123456789'')"
| "in_class Alpha c = (c \<in> set upperAZ \<or> c \<in> set lowerAZ)"
| "in_class Space c = isWhiteSpace c"
| "in_class Dot c = (c \<noteq> CHR 0x0A \<and> c \<noteq> CHR 0x0D)"
| "in_class (OneOf xs) c = (c \<in> set xs)"
| "in_class (NoneOf xs) c = (c \<notin> set xs)"

datatype regex =
    Eps
  | Lit string             \<comment> \<open>a literal text\<close>
  | Cls cclass             \<comment> \<open>one character of a class\<close>
  | Star cclass            \<comment> \<open>\<open>c*\<close>\<close>
  | Plus cclass            \<comment> \<open>\<open>c+\<close>\<close>
  | PlusLazy cclass        \<comment> \<open>\<open>c+?\<close>\<close>
  | Opt regex              \<comment> \<open>\<open>r?\<close>\<close>
  | Alt regex regex        \<comment> \<open>\<open>r|r'\<close>\<close>
  | Cat regex regex        \<comment> \<open>\<open>rr'\<close>\<close>
  | Grp nat regex          \<comment> \<open>the capture group of that number\<close>
  | Bol                    \<comment> \<open>\<open>^\<close>\<close>
  | Eol                    \<comment> \<open>\<open>$\<close>\<close>

type_synonym captures = "(nat \<times> string) list"

text \<open>A literal at the front of the input: the rest of the input after it.\<close>

fun lit_match :: "bool \<Rightarrow> string \<Rightarrow> string \<Rightarrow> string option" where
  "lit_match ci [] s = Some s"
| "lit_match ci (x # xs) [] = None"
| "lit_match ci (x # xs) (c # cs) =
     (if canon ci x = canon ci c then lit_match ci xs cs else None)"

fun star_greedy :: "(char \<Rightarrow> bool) \<Rightarrow> (string \<Rightarrow> 'r option) \<Rightarrow> string \<Rightarrow> 'r option" where
  "star_greedy p k [] = k []"
| "star_greedy p k (c # cs) =
     (if p c then (case star_greedy p k cs of Some r \<Rightarrow> Some r | None \<Rightarrow> k (c # cs))
      else k (c # cs))"

fun star_lazy :: "(char \<Rightarrow> bool) \<Rightarrow> (string \<Rightarrow> 'r option) \<Rightarrow> string \<Rightarrow> 'r option" where
  "star_lazy p k [] = k []"
| "star_lazy p k (c # cs) =
     (case k (c # cs) of Some r \<Rightarrow> Some r
      | None \<Rightarrow> if p c then star_lazy p k cs else None)"

primrec rmatch ::
  "bool \<Rightarrow> nat \<Rightarrow> regex \<Rightarrow> (string \<Rightarrow> captures \<Rightarrow> 'r option) \<Rightarrow> string \<Rightarrow> captures \<Rightarrow> 'r option"
where
  "rmatch ci n Eps k s cs = k s cs"
| "rmatch ci n (Lit l) k s cs =
     (case lit_match ci l s of Some s' \<Rightarrow> k s' cs | None \<Rightarrow> None)"
| "rmatch ci n (Cls c) k s cs =
     (case s of [] \<Rightarrow> None | x # xs \<Rightarrow> if in_class c x then k xs cs else None)"
| "rmatch ci n (Star c) k s cs = star_greedy (in_class c) (\<lambda>s'. k s' cs) s"
| "rmatch ci n (Plus c) k s cs =
     (case s of [] \<Rightarrow> None
      | x # xs \<Rightarrow> if in_class c x then star_greedy (in_class c) (\<lambda>s'. k s' cs) xs else None)"
| "rmatch ci n (PlusLazy c) k s cs =
     (case s of [] \<Rightarrow> None
      | x # xs \<Rightarrow> if in_class c x then star_lazy (in_class c) (\<lambda>s'. k s' cs) xs else None)"
| "rmatch ci n (Opt r) k s cs =
     (case rmatch ci n r k s cs of Some x \<Rightarrow> Some x | None \<Rightarrow> k s cs)"
| "rmatch ci n (Alt r r') k s cs =
     (case rmatch ci n r k s cs of Some x \<Rightarrow> Some x | None \<Rightarrow> rmatch ci n r' k s cs)"
| "rmatch ci n (Cat r r') k s cs = rmatch ci n r (\<lambda>s' cs'. rmatch ci n r' k s' cs') s cs"
| "rmatch ci n (Grp g r) k s cs =
     rmatch ci n r (\<lambda>s' cs'. k s' ((g, take (length s - length s') s) # cs')) s cs"
| "rmatch ci n Bol k s cs = (if length s = n then k s cs else None)"
| "rmatch ci n Eol k s cs = (if s = [] then k s cs else None)"

text \<open>A sequence \<open>r\<^sub>1 r\<^sub>2 \<dots>\<close> and an alternation \<open>r\<^sub>1|r\<^sub>2|\<dots>\<close>.\<close>

fun seq :: "regex list \<Rightarrow> regex" where
  "seq [] = Eps"
| "seq [r] = r"
| "seq (r # rs) = Cat r (seq rs)"

fun alts :: "regex list \<Rightarrow> regex" where
  "alts [] = Eps"
| "alts [r] = r"
| "alts (r # rs) = Alt r (alts rs)"

text \<open>
  A match: the index it starts at, its length and its captures. \<open>match_at\<close> tries the
  pattern at the front of the suffix \<open>s\<close> of an input of length \<open>n\<close>; \<open>search\<close> tries
  every start from the left, as \<open>RegExp.prototype.exec\<close> does from \<open>lastIndex = 0\<close>.
\<close>

record rx_match =
  index :: nat
  len :: nat
  groups :: captures

definition match_at :: "bool \<Rightarrow> nat \<Rightarrow> regex \<Rightarrow> string \<Rightarrow> (nat \<times> captures) option" where
  "match_at ci n r s = rmatch ci n r (\<lambda>s' cs. Some (length s - length s', cs)) s []"

fun search :: "bool \<Rightarrow> nat \<Rightarrow> regex \<Rightarrow> string \<Rightarrow> rx_match option" where
  "search ci n r [] =
     (case match_at ci n r [] of
        Some (l, cs) \<Rightarrow> Some \<lparr>index = n, len = l, groups = cs\<rparr>
      | None \<Rightarrow> None)"
| "search ci n r (c # s) =
     (case match_at ci n r (c # s) of
        Some (l, cs) \<Rightarrow> Some \<lparr>index = n - length (c # s), len = l, groups = cs\<rparr>
      | None \<Rightarrow> search ci n r s)"

text \<open>\<open>s.match(r)\<close> for a pattern without the \<open>g\<close> flag; \<open>m[g]\<close> for a match \<open>m\<close>.\<close>

definition js_match :: "bool \<Rightarrow> regex \<Rightarrow> string \<Rightarrow> rx_match option" where
  "js_match ci r s = search ci (length s) r s"

definition grp :: "rx_match \<Rightarrow> nat \<Rightarrow> string option" where
  "grp m g = map_of (groups m) g"

text \<open>
  The matches of a pattern with the \<open>g\<close> flag, left to right: after a match the scan goes
  on where the match ended, and one character further after an empty match. \<open>skip\<close>
  counts the characters of the last match still to pass.
\<close>

fun scan :: "bool \<Rightarrow> nat \<Rightarrow> regex \<Rightarrow> string \<Rightarrow> nat \<Rightarrow> rx_match list" where
  "scan ci n r [] skip =
     (if skip = 0 then
        (case match_at ci n r [] of
           Some (l, cs) \<Rightarrow> [\<lparr>index = n, len = l, groups = cs\<rparr>]
         | None \<Rightarrow> [])
      else [])"
| "scan ci n r (c # s) skip =
     (if skip = 0 then
        (case match_at ci n r (c # s) of
           Some (l, cs) \<Rightarrow>
             \<lparr>index = n - length (c # s), len = l, groups = cs\<rparr> # scan ci n r s (l - 1)
         | None \<Rightarrow> scan ci n r s 0)
      else scan ci n r s (skip - 1))"

definition substring :: "string \<Rightarrow> nat \<Rightarrow> nat \<Rightarrow> string" where
  "substring s i j = take (j - i) (drop i s)"

text \<open>\<open>s.match(r)\<close> for a pattern with the \<open>g\<close> flag: the matched texts (\<open>null\<close> when none).\<close>

definition js_match_all :: "bool \<Rightarrow> regex \<Rightarrow> string \<Rightarrow> string list" where
  "js_match_all ci r s =
     map (\<lambda>m. substring s (index m) (index m + len m)) (scan ci (length s) r s 0)"

text \<open>
  \<open>s.replace(r, t)\<close> for a replacement text \<open>t\<close> without \<open>$\<close>: the first match is
  replaced, or every match when the pattern has the \<open>g\<close> flag.
\<close>

definition js_replace :: "bool \<Rightarrow> regex \<Rightarrow> string \<Rightarrow> string \<Rightarrow> string" where
  "js_replace ci r t s =
     (case js_match ci r s of
        None \<Rightarrow> s
      | Some m \<Rightarrow> take (index m) s @ t @ drop (index m + len m) s)"

fun replace_from :: "bool \<Rightarrow> nat \<Rightarrow> regex \<Rightarrow> string \<Rightarrow> string \<Rightarrow> nat \<Rightarrow> string" where
  "replace_from ci n r t [] skip =
     (if skip = 0 then (case match_at ci n r [] of Some _ \<Rightarrow> t | None \<Rightarrow> []) else [])"
| "replace_from ci n r t (c # s) skip =
     (if skip = 0 then
        (case match_at ci n r (c # s) of
           Some (l, cs) \<Rightarrow>
             (if l = 0 then t @ c # replace_from ci n r t s 0
              else t @ replace_from ci n r t s (l - 1))
         | None \<Rightarrow> c # replace_from ci n r t s 0)
      else replace_from ci n r t s (skip - 1))"

definition js_replace_all :: "bool \<Rightarrow> regex \<Rightarrow> string \<Rightarrow> string \<Rightarrow> string" where
  "js_replace_all ci r t s = replace_from ci (length s) r t s 0"

section \<open>The citation grammar\<close>

text \<open>
  The keyword alternatives \<open>(?:Section|s|sec\.?)\<close> and \<open>(?:Article|Art\.?)\<close>, and the
  provision number \<open>\d+[A-Za-z]*\<close>, as the patterns of both tools spell them.
\<close>

definition secKw :: regex where
  "secKw = alts [Lit ''Section'', Lit ''s'', Cat (Lit ''sec'') (Opt (Lit ''.''))]"

definition artKw :: regex where
  "artKw = alts [Lit ''Article'', Cat (Lit ''Art'') (Opt (Lit ''.''))]"

definition numTok :: regex where
  "numTok = Cat (Plus Digit) (Star Alpha)"

text \<open>The four patterns of \<open>parseCitation\<close>, all with the \<open>i\<close> flag:
  \<^verbatim>\<open>/^(?:Section|s|sec\.?)\s*(\d+[A-Za-z]*)\s*(?:,|of(?:\s+the)?)\s+(.+)$/i\<close>,
  \<^verbatim>\<open>/^(?:Article|Art\.?)\s*(\d+[A-Za-z]*)\s*(?:,|of(?:\s+the)?)\s+(.+)$/i\<close>,
  \<^verbatim>\<open>/^(.+?)[,;]?\s*(?:Section|s|sec\.?)\s*(\d+[A-Za-z]*)$/i\<close> and
  \<^verbatim>\<open>/^(.+?)[,;]?\s*(?:Article|Art\.?)\s*(\d+[A-Za-z]*)$/i\<close>.\<close>

definition ofThe :: regex where
  "ofThe = Alt (Lit '','') (Cat (Lit ''of'') (Opt (Cat (Plus Space) (Lit ''the''))))"

definition parse_secFirst :: regex where
  "parse_secFirst =
     seq [Bol, secKw, Star Space, Grp 1 numTok, Star Space, ofThe, Plus Space,
          Grp 2 (Plus Dot), Eol]"

definition parse_artFirst :: regex where
  "parse_artFirst =
     seq [Bol, artKw, Star Space, Grp 1 numTok, Star Space, ofThe, Plus Space,
          Grp 2 (Plus Dot), Eol]"

definition parse_secLast :: regex where
  "parse_secLast =
     seq [Bol, Grp 1 (PlusLazy Dot), Opt (Cls (OneOf '',;'')), Star Space, secKw, Star Space,
          Grp 2 numTok, Eol]"

definition parse_artLast :: regex where
  "parse_artLast =
     seq [Bol, Grp 1 (PlusLazy Dot), Opt (Cls (OneOf '',;'')), Star Space, artKw, Star Space,
          Grp 2 numTok, Eol]"

text \<open>
  \<open>m[g]\<close> where the program reads it without a guard: every group of the patterns above
  takes part in every match, so the text is always there; the model gives the empty
  text otherwise.
\<close>

definition grpText :: "rx_match \<Rightarrow> nat \<Rightarrow> string" where
  "grpText m g = (case grp m g of Some t \<Rightarrow> t | None \<Rightarrow> [])"

text \<open>\<open>.replace(/^the\s+/i, '')\<close>\<close>

definition stripThe :: "string \<Rightarrow> string" where
  "stripThe s = js_replace True (seq [Bol, Lit ''the'', Plus Space]) [] s"

record CitationParseResult =
  documentRef :: string
  sectionRef :: "string option"

text \<open>
  \<open>parseCitation\<close>: its result type admits \<open>null\<close> (here \<open>None\<close>), and the last line
  returns the whole trimmed text as the document reference.
\<close>

definition parseCitation :: "string \<Rightarrow> CitationParseResult option" where
  "parseCitation citation =
     (let trimmed = trim citation in
      case js_match True parse_secFirst trimmed of
        Some secFirst \<Rightarrow>
          Some \<lparr>documentRef = stripThe (trim (grpText secFirst 2)),
                sectionRef = Some (grpText secFirst 1)\<rparr>
      | None \<Rightarrow>
      (case js_match True parse_artFirst trimmed of
        Some artFirst \<Rightarrow>
          Some \<lparr>documentRef = stripThe (trim (grpText artFirst 2)),
                sectionRef = Some (grpText artFirst 1)\<rparr>
      | None \<Rightarrow>
      (case js_match True parse_secLast trimmed of
        Some secLast \<Rightarrow>
          Some \<lparr>documentRef = trim (grpText secLast 1), sectionRef = Some (grpText secLast 2)\<rparr>
      | None \<Rightarrow>
      (case js_match True parse_artLast trimmed of
        Some artLast \<Rightarrow>
          Some \<lparr>documentRef = trim (grpText artLast 1), sectionRef = Some (grpText artLast 2)\<rparr>
      | None \<Rightarrow>
          Some \<lparr>documentRef = trimmed, sectionRef = None\<rparr>))))"

section \<open>The citation formatter\<close>

text \<open>The four patterns of \<open>formatCitationTool\<close>, all with the \<open>i\<close> flag:
  \<^verbatim>\<open>/^(?:Section|s|sec\.?)\s*(\d+[A-Za-z]*)\s*[,;]?\s+(.+)$/i\<close>,
  \<^verbatim>\<open>/^(.+?)[,;]?\s*(?:Section|s|sec\.?)\s*(\d+[A-Za-z]*)$/i\<close>,
  \<^verbatim>\<open>/^(?:Article|Art\.?)\s*(\d+[A-Za-z]*)\s*[,;]?\s+(.+)$/i\<close> and
  \<^verbatim>\<open>/^(.+?)[,;]?\s*(?:Article|Art\.?)\s*(\d+[A-Za-z]*)$/i\<close>.\<close>

definition format_secFirst :: regex where
  "format_secFirst =
     seq [Bol, secKw, Star Space, Grp 1 numTok, Star Space, Opt (Cls (OneOf '',;'')),
          Plus Space, Grp 2 (Plus Dot), Eol]"

definition format_secLast :: regex where
  "format_secLast =
     seq [Bol, Grp 1 (PlusLazy Dot), Opt (Cls (OneOf '',;'')), Star Space, secKw, Star Space,
          Grp 2 numTok, Eol]"

definition format_artFirst :: regex where
  "format_artFirst =
     seq [Bol, artKw, Star Space, Grp 1 numTok, Star Space, Opt (Cls (OneOf '',;'')),
          Plus Space, Grp 2 (Plus Dot), Eol]"

definition format_artLast :: regex where
  "format_artLast =
     seq [Bol, Grp 1 (PlusLazy Dot), Opt (Cls (OneOf '',;'')), Star Space, artKw, Star Space,
          Grp 2 numTok, Eol]"

datatype citation_format = Full | Short | Pinpoint

record FormatCitationResult =
  original :: string
  formatted :: string
  format :: citation_format

text \<open>\<open>m?.[g]\<close>, \<open>a ?? b\<close> and the truth value of an optional text.\<close>

definition opt_group :: "rx_match option \<Rightarrow> nat \<Rightarrow> string option" where
  "opt_group m g = (case m of None \<Rightarrow> None | Some m' \<Rightarrow> grp m' g)"

definition orElse :: "'a option \<Rightarrow> 'a option \<Rightarrow> 'a option" where
  "orElse a b = (case a of Some x \<Rightarrow> Some x | None \<Rightarrow> b)"

definition truthy :: "string option \<Rightarrow> bool" where
  "truthy t = (case t of None \<Rightarrow> False | Some x \<Rightarrow> x \<noteq> [])"

text \<open>\<open>law.split('(')[0].trim()\<close>\<close>

definition beforeParen :: "string \<Rightarrow> string" where
  "beforeParen law = trim (takeWhile (\<lambda>c. c \<noteq> CHR ''('') law)"

text \<open>
  \<open>formatCitationTool\<close>; its first argument is \<open>input.citation\<close>, its second
  \<open>input.format\<close> (\<open>None\<close> when the field is absent).
\<close>

definition formatCitationTool :: "string \<Rightarrow> citation_format option \<Rightarrow> FormatCitationResult" where
  "formatCitationTool citation fmt =
     (let format = (case fmt of None \<Rightarrow> Full | Some f \<Rightarrow> f);
          trimmed = trim citation;
          secFirst = js_match True format_secFirst trimmed;
          secLast = js_match True format_secLast trimmed;
          artFirst = js_match True format_artFirst trimmed;
          artLast = js_match True format_artLast trimmed;
          section = orElse (opt_group secFirst 1) (orElse (opt_group secLast 2)
                      (orElse (opt_group artFirst 1) (opt_group artLast 2)));
          law = (case orElse (opt_group secFirst 2) (orElse (opt_group secLast 1)
                        (orElse (opt_group artFirst 2) (opt_group artLast 1))) of
                   Some l \<Rightarrow> l | None \<Rightarrow> trimmed);
          isArticle = (artFirst \<noteq> None \<or> artLast \<noteq> None);
          prefix = (if isArticle then ''Article'' else ''Section'');
          sec = (case section of Some t \<Rightarrow> t | None \<Rightarrow> []);
          formatted =
            (case format of
               Short \<Rightarrow> if truthy section then ''s '' @ sec @ '', '' @ beforeParen law else law
             | Pinpoint \<Rightarrow> if truthy section then ''s '' @ sec else law
             | Full \<Rightarrow> if truthy section then prefix @ '' '' @ sec @ '', '' @ law else law)
      in \<lparr>original = citation, formatted = formatted, format = format\<rparr>)"

text \<open>
  The values of the variables \<open>section\<close> and \<open>law\<close> of \<open>formatCitationTool\<close>: the
  provision number and the law text of the first of its four patterns that matches, and
  the trimmed citation as the law text when none does.
\<close>

definition formatSection :: "string \<Rightarrow> string option" where
  "formatSection x =
     (let trimmed = trim x;
          secFirst = js_match True format_secFirst trimmed;
          secLast = js_match True format_secLast trimmed;
          artFirst = js_match True format_artFirst trimmed;
          artLast = js_match True format_artLast trimmed
      in orElse (opt_group secFirst 1) (orElse (opt_group secLast 2)
           (orElse (opt_group artFirst 1) (opt_group artLast 2))))"

definition formatLaw :: "string \<Rightarrow> string" where
  "formatLaw x =
     (let trimmed = trim x;
          secFirst = js_match True format_secFirst trimmed;
          secLast = js_match True format_secLast trimmed;
          artFirst = js_match True format_artFirst trimmed;
          artLast = js_match True format_artLast trimmed
      in case orElse (opt_group secFirst 2) (orElse (opt_group secLast 1)
                (orElse (opt_group artFirst 2) (opt_group artLast 1))) of
           Some l \<Rightarrow> l | None \<Rightarrow> trimmed)"

section \<open>The document store\<close>

text \<open>
  The store is an SQLite database. A table is the list of its rows in the order a scan
  of the table returns them; \<open>.get(\<dots>)\<close> gives the first row that satisfies the
  \<open>WHERE\<close> clause, so it is \<open>find\<close>. Of each table the model keeps the columns the
  queries of this program read, and takes them to hold texts (no \<open>NULL\<close>).
\<close>

record LegalDocument =
  doc_id :: string
  doc_title :: string
  doc_short_name :: string
  doc_title_en :: string
  doc_status :: string

record LegalProvision =
  prov_document_id :: string
  prov_provision_ref :: string
  prov_section :: string

record Database =
  legal_documents :: "LegalDocument list"
  legal_provisions :: "LegalProvision list"

text \<open>
  SQLite's built-in \<open>LOWER\<close> and \<open>LIKE\<close>: both fold the ASCII letters only. In a
  \<open>LIKE\<close> pattern \<open>%\<close> stands for any text and \<open>_\<close> for any one character; every
  other character of the pattern matches itself, upper or lower case alike (the default,
  \<open>case_sensitive_like\<close> off; the queries name no \<open>ESCAPE\<close> character).
\<close>

definition sql_lower_char :: "char \<Rightarrow> char" where
  "sql_lower_char c = translate upperAZ lowerAZ c"

definition sql_lower :: "string \<Rightarrow> string" where
  "sql_lower s = map sql_lower_char s"

fun sql_like :: "string \<Rightarrow> string \<Rightarrow> bool" where
  "sql_like [] s = (s = [])"
| "sql_like (p # ps) [] = (p = CHR ''%'' \<and> sql_like ps [])"
| "sql_like (p # ps) (c # cs) =
     (if p = CHR ''%'' then sql_like ps (c # cs) \<or> sql_like (p # ps) cs
      else (p = CHR ''_'' \<or> sql_lower_char p = sql_lower_char c) \<and> sql_like ps cs)"

section \<open>The document resolver\<close>

text \<open>
  \<open>resolveDocumentId\<close>: five queries, each returning the id of its first row.
  \<open>contains_pattern t\<close> is the parameter \<^verbatim>\<open>`%${trimmed}%`\<close>.
\<close>

definition contains_pattern :: "string \<Rightarrow> string" where
  "contains_pattern t = ''%'' @ t @ ''%''"

definition resolveDocumentId :: "Database \<Rightarrow> string \<Rightarrow> string option" where
  "resolveDocumentId db input =
     (let trimmed = trim input in
      if trimmed = [] then None
      else
      case find (\<lambda>d. doc_id d = trimmed) (legal_documents db) of
        Some directMatch \<Rightarrow> Some (doc_id directMatch)
      | None \<Rightarrow>
      (case find (\<lambda>d. sql_lower (doc_title d) = sql_lower trimmed) (legal_documents db) of
        Some exactTitle \<Rightarrow> Some (doc_id exactTitle)
      | None \<Rightarrow>
      (case find (\<lambda>d. sql_lower (doc_short_name d) = sql_lower trimmed) (legal_documents db) of
        Some shortNameMatch \<Rightarrow> Some (doc_id shortNameMatch)
      | None \<Rightarrow>
      (case find (\<lambda>d. sql_like (contains_pattern trimmed) (doc_title d) \<or>
                       sql_like (contains_pattern trimmed) (doc_short_name d) \<or>
                       sql_like (contains_pattern trimmed) (doc_title_en d))
              (legal_documents db) of
        Some titleResult \<Rightarrow> Some (doc_id titleResult)
      | None \<Rightarrow>
      (case find (\<lambda>d. sql_like (sql_lower (contains_pattern trimmed)) (sql_lower (doc_title d)) \<or>
                       sql_like (sql_lower (contains_pattern trimmed)) (sql_lower (doc_short_name d)) \<or>
                       sql_like (sql_lower (contains_pattern trimmed)) (sql_lower (doc_title_en d)))
              (legal_documents db) of
        Some lowerResult \<Rightarrow> Some (doc_id lowerResult)
      | None \<Rightarrow> None)))))"

text \<open>
  The cascade in the words of the specification, to compare \<open>resolveDocumentId\<close> with:
  the first document by (1) its identifier, (2) its title and (3) its short name, compared
  without regard to the case of ASCII letters, (4) a substring match of the title, the
  short name or the English title, and (5) the same match without regard to case; a step
  is tried when every step before it found nothing. \<open>substringMatch\<close> is the match of
  step (4): \<open>js_includes\<close> is the case-sensitive one, \<open>foldedIncludes\<close> the one of step (5).
\<close>

definition firstId :: "(LegalDocument \<Rightarrow> bool) \<Rightarrow> Database \<Rightarrow> string option" where
  "firstId P db = map_option doc_id (find P (legal_documents db))"

definition foldedIncludes :: "string \<Rightarrow> string \<Rightarrow> bool" where
  "foldedIncludes field t = js_includes (sql_lower field) (sql_lower t)"

definition cascade :: "(string \<Rightarrow> string \<Rightarrow> bool) \<Rightarrow> Database \<Rightarrow> string \<Rightarrow> string option" where
  "cascade substringMatch db input =
     (let t = trim input in
      if t = [] then None
      else
        orElse (firstId (\<lambda>d. doc_id d = t) db)
       (orElse (firstId (\<lambda>d. sql_lower (doc_title d) = sql_lower t) db)
       (orElse (firstId (\<lambda>d. sql_lower (doc_short_name d) = sql_lower t) db)
       (orElse (firstId (\<lambda>d. substringMatch (doc_title d) t \<or>
                               substringMatch (doc_short_name d) t \<or>
                               substringMatch (doc_title_en d) t) db)
               (firstId (\<lambda>d. foldedIncludes (doc_title d) t \<or>
                               foldedIncludes (doc_short_name d) t \<or>
                               foldedIncludes (doc_title_en d) t) db)))))"

section \<open>The citation validator\<close>

text \<open>
  The \<open>results\<close> of \<open>validateCitationTool\<close> (the \<open>_metadata\<close> beside them do not
  depend on the citation). A field the program leaves out is \<open>None\<close>. Reading
  \<open>doc.status\<close> of a missing row throws a \<open>TypeError\<close>, the only error of the model.
\<close>

datatype js_error = TypeError

record ValidateCitationResult =
  valid :: bool
  citation :: string
  normalized :: "string option"
  document_id :: "string option"
  document_title :: "string option"
  result_provision_ref :: "string option"
  result_status :: "string option"
  warnings :: "string list"

definition dq :: string where
  "dq = [CHR 0x22]"

definition statusWarnings :: "string \<Rightarrow> string list" where
  "statusWarnings st =
     (if st = ''repealed'' then [''WARNING: This statute has been repealed.'']
      else if st = ''amended'' then
        [''Note: This statute has been amended. Verify you are referencing the current version.'']
      else if st = ''partially_suspended'' then
        [''Note: Certain sections of this statute have been suspended. Verify which sections are in force.'']
      else [])"

definition validateCitationTool :: "Database \<Rightarrow> string \<Rightarrow> js_error + ValidateCitationResult" where
  "validateCitationTool db input_citation =
     (case parseCitation input_citation of
        None \<Rightarrow>
          Inr \<lparr>valid = False, citation = input_citation, normalized = None, document_id = None,
               document_title = None, result_provision_ref = None, result_status = None,
               warnings = [''Could not parse citation format'']\<rparr>
      | Some parsed \<Rightarrow>
          let docId = resolveDocumentId db (documentRef parsed) in
          if \<not> truthy docId then
            Inr \<lparr>valid = False, citation = input_citation, normalized = None, document_id = None,
                 document_title = None, result_provision_ref = None, result_status = None,
                 warnings = [''Document not found: '' @ dq @ documentRef parsed @ dq]\<rparr>
          else
            (case find (\<lambda>d. Some (doc_id d) = docId) (legal_documents db) of
               None \<Rightarrow> Inl TypeError
             | Some doc \<Rightarrow>
                 let warnings0 = statusWarnings (doc_status doc) in
                 if truthy (sectionRef parsed) then
                   (let sec = (case sectionRef parsed of Some t \<Rightarrow> t | None \<Rightarrow> []) in
                    case find (\<lambda>p. Some (prov_document_id p) = docId \<and>
                                    (prov_provision_ref p = sec \<or>
                                     prov_provision_ref p = ''s'' @ sec \<or>
                                     prov_provision_ref p = ''art'' @ sec \<or>
                                     prov_section p = sec))
                           (legal_provisions db) of
                      None \<Rightarrow>
                        Inr \<lparr>valid = False, citation = input_citation, normalized = None,
                             document_id = docId, document_title = Some (doc_title doc),
                             result_provision_ref = None, result_status = None,
                             warnings = warnings0 @
                               [''Provision '' @ dq @ sec @ dq @ '' not found in '' @ doc_title doc]\<rparr>
                    | Some provision \<Rightarrow>
                        Inr \<lparr>valid = True, citation = input_citation,
                             normalized = Some (''Section '' @ sec @ '', '' @ doc_title doc),
                             document_id = docId, document_title = Some (doc_title doc),
                             result_provision_ref = Some (prov_provision_ref provision),
                             result_status = Some (doc_status doc),
                             warnings = warnings0\<rparr>)
                 else
                   Inr \<lparr>valid = True, citation = input_citation,
                        normalized = Some (doc_title doc),
                        document_id = docId, document_title = Some (doc_title doc),
                        result_provision_ref = None, result_status = Some (doc_status doc),
                        warnings = warnings0\<rparr>))"

section \<open>The structural extractor\<close>

datatype LifecycleStatus = in_force | amended | repealed | partially_suspended | not_yet_in_force

record ActIndexEntry =
  entry_id :: string
  entry_title :: string
  entry_titleEn :: string
  entry_shortName :: string
  entry_status :: LifecycleStatus
  entry_issuedDate :: string
  entry_inForceDate :: string
  entry_url :: string
  entry_aknNumber :: string
  entry_aknYear :: string
  entry_description :: "string option"

record ParsedProvision =
  provision_ref :: string
  "chapter" :: "string option"
  "section" :: string
  title :: string
  content :: string

record ParsedDefinition =
  "term" :: string
  "definition" :: string
  source_provision :: "string option"

record ParsedAct =
  act_id :: string
  act_type :: string
  act_title :: string
  act_title_en :: string
  act_short_name :: string
  act_status :: LifecycleStatus
  act_issued_date :: string
  act_in_force_date :: string
  act_url :: string
  act_description :: "string option"
  provisions :: "ParsedProvision list"
  definitions :: "ParsedDefinition list"

text \<open>
  \<open>stripHtml\<close>: nine replacements with the \<open>g\<close> flag, then \<open>trim\<close>. The first pattern
  is \<^verbatim>\<open>/<[^>]+>/g\<close>, the last \<^verbatim>\<open>/\s+/g\<close>; the others are literal texts.
\<close>

definition stripHtml :: "string \<Rightarrow> string" where
  \<open>stripHtml html =
     (let s1 = js_replace_all False (seq [Lit ''<'', Plus (NoneOf ''>''), Lit ''>'']) '' '' html;
          s2 = js_replace_all False (Lit ''&nbsp;'') '' '' s1;
          s3 = js_replace_all False (Lit ''&amp;'') ''&'' s2;
          s4 = js_replace_all False (Lit ''&lt;'') ''<'' s3;
          s5 = js_replace_all False (Lit ''&gt;'') ''>'' s4;
          s6 = js_replace_all False (Lit ''&quot;'') ''"'' s5;
          s7 = js_replace_all False (Lit ''&#39;'') [CHR 0x27] s6;
          s8 = js_replace_all False (Lit [CHR 0xA0]) '' '' s7;
          s9 = js_replace_all False (Plus Space) '' '' s8
      in trim s9)\<close>

text \<open>\<open>extractChapter\<close>: \<^verbatim>\<open>/^part_([^_]+)__/\<close>, then \<^verbatim>\<open>/^chp_([^_]+)__/\<close>.\<close>

definition extractChapter :: "string \<Rightarrow> string option" where
  "extractChapter sectionId =
     (case js_match False (seq [Bol, Lit ''part_'', Grp 1 (Plus (NoneOf ''_'')), Lit ''__'']) sectionId of
        Some partMatch \<Rightarrow> Some (''Part '' @ grpText partMatch 1)
      | None \<Rightarrow>
     (case js_match False (seq [Bol, Lit ''chp_'', Grp 1 (Plus (NoneOf ''_'')), Lit ''__'']) sectionId of
        Some chpMatch \<Rightarrow> Some (''Chapter '' @ grpText chpMatch 1)
      | None \<Rightarrow> None))"

text \<open>\<open>extractSectionNumber\<close>: \<^verbatim>\<open>/^(\d+[A-Za-z]*)\.\s/\<close>.\<close>

definition extractSectionNumber :: "string \<Rightarrow> string option" where
  "extractSectionNumber heading =
     (case js_match False (seq [Bol, Grp 1 numTok, Lit ''.'', Cls Space]) heading of
        Some m \<Rightarrow> Some (grpText m 1)
      | None \<Rightarrow> None)"

text \<open>\<open>extractSectionTitle\<close>: \<^verbatim>\<open>heading.replace(/^\d+[A-Za-z]*\.\s*/, '').trim()\<close>.\<close>

definition extractSectionTitle :: "string \<Rightarrow> string" where
  "extractSectionTitle heading =
     trim (js_replace False (seq [Bol, Plus Digit, Star Alpha, Lit ''.'', Star Space]) [] heading)"

text \<open>
  \<open>extractDefinitions\<close> pushes onto the array it is given; the model returns the array
  after the pushes. Its patterns are
  \<^verbatim>\<open>/<span class="akn-p"[^>]*>[^<]*<\/span>/g\<close>,
  \<^verbatim>\<open>/^["\u201c]([^"\u201d]+)["\u201d]\s+(means|includes|has the meaning)\s+(.+)/i\<close>
  (the curly quotes are code units above 255, so the classes of the model hold the straight
  quote alone) and \<^verbatim>\<open>/;$/\<close>.
\<close>

definition pElementPattern :: regex where
  \<open>pElementPattern =
     seq [Lit ''<span class="akn-p"'', Star (NoneOf ''>''), Lit ''>'', Star (NoneOf ''<''),
          Lit ''</span>'']\<close>

definition defPattern :: regex where
  \<open>defPattern =
     seq [Bol, Cls (OneOf ''"''), Grp 1 (Plus (NoneOf ''"'')), Cls (OneOf ''"''), Plus Space,
          Grp 2 (alts [Lit ''means'', Lit ''includes'', Lit ''has the meaning'']), Plus Space,
          Grp 3 (Plus Dot)]\<close>

definition definitionOf :: "string \<Rightarrow> string \<Rightarrow> ParsedDefinition list" where
  "definitionOf sourceProvision p =
     (let text = stripHtml p in
      case js_match True defPattern text of
        None \<Rightarrow> []
      | Some defMatch \<Rightarrow>
          let term = trim (grpText defMatch 1);
              definition = trim (js_replace False (Cat (Lit '';'') Eol) [] (grpText defMatch 3))
          in if length term > 0 \<and> length definition > 5
             then [\<lparr>term = term, definition = definition,
                     source_provision = Some sourceProvision\<rparr>]
             else [])"

definition extractDefinitions ::
  "string \<Rightarrow> string \<Rightarrow> ParsedDefinition list \<Rightarrow> ParsedDefinition list" where
  "extractDefinitions sectionHtml sourceProvision defs0 =
     (let pElements = js_match_all False pElementPattern sectionHtml
      in fold (\<lambda>p defs. defs @ definitionOf sourceProvision p) pElements defs0)"

text \<open>
  \<open>parseKenyaLawHtml\<close>. The \<open>exec\<close> loop collects the id and the index of every match of
  \<^verbatim>\<open>/<section\s+class="akn-section"\s+id="([^"]+)"\s+data-eid="[^"]*">/g\<close>;
  the \<open>for\<close> loop runs \<open>sectionStep\<close> for \<open>i = 0, \<dots>, sectionStarts.length - 1\<close> on the
  two arrays it fills (\<open>continue\<close> leaves them as they are). The heading is the first
  match of \<^verbatim>\<open>/<h3>([^<]+)<\/h3>/\<close>; the content is the section without the first match
  of \<^verbatim>\<open>/<h3>[^<]*<\/h3>/\<close>.
\<close>

definition h3Heading :: regex where
  "h3Heading = seq [Lit ''<h3>'', Grp 1 (Plus (NoneOf ''<'')), Lit ''</h3>'']"

definition h3Element :: regex where
  "h3Element = seq [Lit ''<h3>'', Star (NoneOf ''<''), Lit ''</h3>'']"

definition sectionPattern :: regex where
  \<open>sectionPattern =
     seq [Lit ''<section'', Plus Space, Lit ''class="akn-section"'', Plus Space, Lit ''id="'',
          Grp 1 (Plus (NoneOf ''"'')), Lit ''"'', Plus Space, Lit ''data-eid="'',
          Star (NoneOf ''"''), Lit ''">'']\<close>

definition sectionStarts :: "string \<Rightarrow> (string \<times> nat) list" where
  "sectionStarts html =
     map (\<lambda>m. (grpText m 1, index m)) (scan False (length html) sectionPattern html 0)"

definition sectionHtmlAt :: "string \<Rightarrow> (string \<times> nat) list \<Rightarrow> nat \<Rightarrow> string" where
  "sectionHtmlAt html starts i =
     (let start = starts ! i;
          endIndex = (if i + 1 < length starts then snd (starts ! (i + 1)) else length html)
      in substring html (snd start) endIndex)"

definition sectionStep ::
  "string \<Rightarrow> (string \<times> nat) list \<Rightarrow> nat \<Rightarrow>
   ParsedProvision list \<times> ParsedDefinition list \<Rightarrow> ParsedProvision list \<times> ParsedDefinition list"
where
  "sectionStep html starts i acc =
     (let start = starts ! i;
          sectionHtml = sectionHtmlAt html starts i
      in case js_match False h3Heading sectionHtml of
           None \<Rightarrow> acc
         | Some headingMatch \<Rightarrow>
             let headingText = trim (grpText headingMatch 1);
                 sectionNum = extractSectionNumber headingText
             in if \<not> truthy sectionNum then acc
                else
                  let num = (case sectionNum of Some t \<Rightarrow> t | None \<Rightarrow> []);
                      title = extractSectionTitle headingText;
                      chapter = extractChapter (fst start);
                      isArticle = js_includes (fst start) ''__art_'';
                      provisionRef = (if isArticle then ''art'' @ num else ''s'' @ num);
                      contentHtml = js_replace False h3Element [] sectionHtml;
                      content = stripHtml contentHtml;
                      provisions' =
                        (if length content > 10
                         then fst acc @ [\<lparr>provision_ref = provisionRef, chapter = chapter,
                                            section = num, title = title,
                                            content = take 12000 content\<rparr>]
                         else fst acc);
                      definitions' =
                        (if js_includes (toLowerCase title) ''interpretation'' \<or>
                            js_includes (toLowerCase title) ''definition''
                         then extractDefinitions sectionHtml provisionRef (snd acc)
                         else snd acc)
                  in (provisions', definitions'))"

definition parseKenyaLawHtml :: "string \<Rightarrow> ActIndexEntry \<Rightarrow> ParsedAct" where
  "parseKenyaLawHtml html act =
     (let starts = sectionStarts html;
          filled = fold (sectionStep html starts) [0..<length starts] ([], [])
      in \<lparr>act_id = entry_id act, act_type = ''statute'', act_title = entry_title act,
          act_title_en = entry_titleEn act, act_short_name = entry_shortName act,
          act_status = entry_status act, act_issued_date = entry_issuedDate act,
          act_in_force_date = entry_inForceDate act, act_url = entry_url act,
          act_description = entry_description act,
          provisions = fst filled, definitions = snd filled\<rparr>)"

text \<open>
  What the loop body reads off the section at index \<open>i\<close>: the trimmed heading, the
  stripped content, the provision reference for a section number, and whether a title
  names a section of definitions.
\<close>

definition headingTextAt :: "string \<Rightarrow> (string \<times> nat) list \<Rightarrow> nat \<Rightarrow> string option" where
  "headingTextAt html starts i =
     (case js_match False h3Heading (sectionHtmlAt html starts i) of
        None \<Rightarrow> None
      | Some headingMatch \<Rightarrow> Some (trim (grpText headingMatch 1)))"

definition contentAt :: "string \<Rightarrow> (string \<times> nat) list \<Rightarrow> nat \<Rightarrow> string" where
  "contentAt html starts i = stripHtml (js_replace False h3Element [] (sectionHtmlAt html starts i))"

definition provisionRefFor :: "string \<Rightarrow> string \<Rightarrow> string" where
  "provisionRefFor sectionId num =
     (if js_includes sectionId ''__art_'' then ''art'' @ num else ''s'' @ num)"

definition definitionTitle :: "string \<Rightarrow> bool" where
  "definitionTitle t \<longleftrightarrow>
     js_includes (toLowerCase t) ''interpretation'' \<or> js_includes (toLowerCase t) ''definition''"

text \<open>The provisions and the definitions one run of the loop body adds.\<close>

definition provisionAt :: "string \<Rightarrow> (string \<times> nat) list \<Rightarrow> nat \<Rightarrow> ParsedProvision list" where
  "provisionAt html starts i =
     (case headingTextAt html starts i of
        None \<Rightarrow> []
      | Some h \<Rightarrow>
          (case extractSectionNumber h of
             None \<Rightarrow> []
           | Some num \<Rightarrow>
               if num \<noteq> [] \<and> 10 < length (contentAt html starts i)
               then [\<lparr>provision_ref = provisionRefFor (fst (starts ! i)) num,
                      chapter = extractChapter (fst (starts ! i)),
                      section = num, title = extractSectionTitle h,
                      content = take 12000 (contentAt html starts i)\<rparr>]
               else []))"

definition definitionsAt :: "string \<Rightarrow> (string \<times> nat) list \<Rightarrow> nat \<Rightarrow> ParsedDefinition list" where
  "definitionsAt html starts i =
     (case headingTextAt html starts i of
        None \<Rightarrow> []
      | Some h \<Rightarrow>
          (case extractSectionNumber h of
             None \<Rightarrow> []
           | Some num \<Rightarrow>
               if num \<noteq> [] \<and> definitionTitle (extractSectionTitle h)
               then extractDefinitions (sectionHtmlAt html starts i)
                      (provisionRefFor (fst (starts ! i)) num) []
               else []))"

section \<open>What a match consists of\<close>

text \<open>
  Two relations between a pattern and a text, to reason about \<open>rmatch\<close> on texts that are
  not given character by character. \<open>denotes ci n r u rest cs\<close>: the text \<open>u\<close>, followed
  by \<open>rest\<close>, has the form of \<open>r\<close>, with the captures \<open>cs\<close> (the last one first). Every
  match of \<open>rmatch\<close> has it.
\<close>

primrec denotes :: "bool \<Rightarrow> nat \<Rightarrow> regex \<Rightarrow> string \<Rightarrow> string \<Rightarrow> captures \<Rightarrow> bool" where
  "denotes ci n Eps u rest cs \<longleftrightarrow> u = [] \<and> cs = []"
| "denotes ci n (Lit l) u rest cs \<longleftrightarrow> map (canon ci) u = map (canon ci) l \<and> cs = []"
| "denotes ci n (Cls c) u rest cs \<longleftrightarrow> (\<exists>x. u = [x] \<and> in_class c x) \<and> cs = []"
| "denotes ci n (Star c) u rest cs \<longleftrightarrow> list_all (in_class c) u \<and> cs = []"
| "denotes ci n (Plus c) u rest cs \<longleftrightarrow> u \<noteq> [] \<and> list_all (in_class c) u \<and> cs = []"
| "denotes ci n (PlusLazy c) u rest cs \<longleftrightarrow> u \<noteq> [] \<and> list_all (in_class c) u \<and> cs = []"
| "denotes ci n (Opt r) u rest cs \<longleftrightarrow> (u = [] \<and> cs = []) \<or> denotes ci n r u rest cs"
| "denotes ci n (Alt r r') u rest cs \<longleftrightarrow> denotes ci n r u rest cs \<or> denotes ci n r' u rest cs"
| "denotes ci n (Cat r r') u rest cs \<longleftrightarrow>
     (\<exists>u1 u2 c1 c2. u = u1 @ u2 \<and> cs = c2 @ c1 \<and>
        denotes ci n r u1 (u2 @ rest) c1 \<and> denotes ci n r' u2 rest c2)"
| "denotes ci n (Grp g r) u rest cs \<longleftrightarrow> (\<exists>c. cs = (g, u) # c \<and> denotes ci n r u rest c)"
| "denotes ci n Bol u rest cs \<longleftrightarrow> u = [] \<and> cs = [] \<and> length rest = n"
| "denotes ci n Eol u rest cs \<longleftrightarrow> u = [] \<and> cs = [] \<and> rest = []"

text \<open>
  \<open>takes ci n r u rest cs'\<close>: in front of \<open>rest\<close>, the first match of \<open>r\<close> that the
  continuation accepts is \<open>u\<close> with the captures \<open>cs'\<close>, whenever the continuation accepts
  \<open>rest\<close>.
\<close>

definition takes :: "bool \<Rightarrow> nat \<Rightarrow> regex \<Rightarrow> string \<Rightarrow> string \<Rightarrow> captures \<Rightarrow> bool" where
  "takes ci n r u rest cs' \<longleftrightarrow>
     (\<forall>(k :: string \<Rightarrow> captures \<Rightarrow> (nat \<times> captures) option) cs x.
        k rest (cs' @ cs) = Some x \<longrightarrow> rmatch ci n r k (u @ rest) cs = Some x)"

text \<open>A provision number: digits, then letters (\<^verbatim>\<open>\d+[A-Za-z]*\<close>).\<close>

definition numToken :: "string \<Rightarrow> bool" where
  "numToken N \<longleftrightarrow>
     (\<exists>ds ls. N = ds @ ls \<and> ds \<noteq> [] \<and> list_all (in_class Digit) ds \<and> list_all (in_class Alpha) ls)"

section \<open>Example inputs\<close>

text \<open>
  A store with three statutes, one of them partially suspended and one not yet in force,
  and one provision.
\<close>

definition exampleStore :: Database where
  "exampleStore =
     \<lparr>legal_documents =
        [\<lparr>doc_id = ''data-protection-act-2019'', doc_title = ''Data Protection Act 2019'',
          doc_short_name = ''DPA 2019'', doc_title_en = ''Data Protection Act 2019'',
          doc_status = ''in_force''\<rparr>,
         \<lparr>doc_id = ''computer-misuse-cybercrimes-act-2018'',
          doc_title = ''Computer Misuse and Cybercrimes Act 2018'',
          doc_short_name = ''CMCA 2018'',
          doc_title_en = ''Computer Misuse and Cybercrimes Act 2018'',
          doc_status = ''partially_suspended''\<rparr>,
         \<lparr>doc_id = ''evidence-act'', doc_title = ''Evidence Act'',
          doc_short_name = ''Evidence Act'', doc_title_en = ''Evidence Act'',
          doc_status = ''not_yet_in_force''\<rparr>],
      legal_provisions =
        [\<lparr>prov_document_id = ''data-protection-act-2019'', prov_provision_ref = ''s25'',
          prov_section = ''25''\<rparr>]\<rparr>"

text \<open>A store whose only document has an identifier that starts with a space.\<close>

definition paddedStore :: Database where
  "paddedStore =
     \<lparr>legal_documents =
        [\<lparr>doc_id = '' kica'', doc_title = ''Kenya Information and Communications Act'',
          doc_short_name = ''KIC Act'', doc_title_en = ''Kenya Information and Communications Act'',
          doc_status = ''in_force''\<rparr>],
      legal_provisions = []\<rparr>"

text \<open>
  A store of two documents; the title of the first holds the words of the second in
  capitals.
\<close>

definition caseStore :: Database where
  "caseStore =
     \<lparr>legal_documents =
        [\<lparr>doc_id = ''evidence-act-old'', doc_title = ''EVIDENCE ACT (REPEALED)'',
          doc_short_name = ''EA (old)'', doc_title_en = ''EVIDENCE ACT (REPEALED)'',
          doc_status = ''repealed''\<rparr>,
         \<lparr>doc_id = ''evidence-act'', doc_title = ''Evidence Act (Cap. 80)'',
          doc_short_name = ''Cap. 80'', doc_title_en = ''Evidence Act (Cap. 80)'',
          doc_status = ''in_force''\<rparr>],
      legal_provisions = []\<rparr>"

text \<open>An act of the catalogue, and three pages of one section each.\<close>

definition exampleAct :: ActIndexEntry where
  "exampleAct =
     \<lparr>entry_id = ''data-protection-act-2019'', entry_title = ''Data Protection Act 2019'',
      entry_titleEn = ''Data Protection Act 2019'', entry_shortName = ''DPA 2019'',
      entry_status = in_force, entry_issuedDate = ''2019-11-08'',
      entry_inForceDate = ''2019-11-25'',
      entry_url = ''https://new.kenyalaw.org/akn/ke/act/2019/24/'',
      entry_aknNumber = ''24'', entry_aknYear = ''2019'', entry_description = None\<rparr>"

definition partHtml :: string where
  \<open>partHtml =
     ''<section class="akn-section" id="part_III__sec_25" data-eid="sec_25">'' @
     ''<h3>25. Principles of data protection</h3><p>Process data lawfully.</p>''\<close>

definition nestedHtml :: string where
  \<open>nestedHtml =
     ''<section class="akn-section" id="chp_2__part_III__sec_25" data-eid="sec_25">'' @
     ''<h3>25. Principles of data protection</h3><p>Process data lawfully.</p>''\<close>

definition interpretationHtml :: string where
  \<open>interpretationHtml =
     ''<section class="akn-section" id="part_I__sec_2" data-eid="sec_2">'' @
     ''<h3>2. Interpretation</h3><span class="akn-p">"data" means recorded information;</span>''\<close>

text \<open>A page whose one section has 12001 characters of text after its heading.\<close>

definition longHtml :: string where
  \<open>longHtml =
     ''<section class="akn-section" id="sec_1" data-eid="sec_1">'' @
     ''<h3>1. Short title</h3>'' @ replicate 12001 (CHR ''a'')\<close>

section \<open>Evaluation\<close>

text \<open>
  The two case foldings, read off the bits of a character: an ASCII letter has the bits
  \<open>b7 = 0\<close> and \<open>b6 = 1\<close>, \<open>b5\<close> is its case, and its five low bits count from 1 to 26.
\<close>

lemma canon_Char [code]:
  "canon ci (Char b0 b1 b2 b3 b4 b5 b6 b7) =
     (if ci \<and> b5 \<and> b6 \<and> \<not> b7 \<and> (b0 \<or> b1 \<or> b2 \<or> b3 \<or> b4) \<and>
         \<not> (b3 \<and> b4 \<and> (b2 \<or> (b0 \<and> b1)))
      then Char b0 b1 b2 b3 b4 False b6 b7 else Char b0 b1 b2 b3 b4 b5 b6 b7)"
  by (cases b7; cases b6; cases b5; simp add: canon_def upperAZ_def lowerAZ_def)

lemma sql_lower_char_Char [code]:
  "sql_lower_char (Char b0 b1 b2 b3 b4 b5 b6 b7) =
     (if \<not> b5 \<and> b6 \<and> \<not> b7 \<and> (b0 \<or> b1 \<or> b2 \<or> b3 \<or> b4) \<and>
         \<not> (b3 \<and> b4 \<and> (b2 \<or> (b0 \<and> b1)))
      then Char b0 b1 b2 b3 b4 True b6 b7 else Char b0 b1 b2 b3 b4 b5 b6 b7)"
  by (cases b7; cases b6; cases b5; simp add: sql_lower_char_def upperAZ_def lowerAZ_def)

section \<open>Properties of the resolver\<close>

lemma trim_Nil [simp]: "trim [] = []"
  by (simp add: trim_def)

lemma trim_whitespace: "list_all isWhiteSpace s \<Longrightarrow> trim s = []"
proof -
  assume "list_all isWhiteSpace s"
  then have front: "dropWhile isWhiteSpace s = []"
    by (induction s) auto
  show ?thesis
    by (simp add: trim_def front)
qed

lemma find_Some_mem: "find P xs = Some x \<Longrightarrow> x \<in> set xs \<and> P x"
  by (induction xs) (auto split: if_splits)

lemma find_id:
  "d \<in> set ds \<Longrightarrow> \<exists>d'. find (\<lambda>x. doc_id x = doc_id d) ds = Some d' \<and> doc_id d' = doc_id d"
  by (induction ds) auto

lemma resolve_empty: "resolveDocumentId db [] = None"
  by (simp add: resolveDocumentId_def)

lemma resolve_in_store:
  "resolveDocumentId db input = Some i \<Longrightarrow> \<exists>d \<in> set (legal_documents db). doc_id d = i"
  by (auto simp: resolveDocumentId_def Let_def split: if_splits option.splits dest: find_Some_mem)

text \<open>
  C7, as amended. Resolving the identifier of a stored document returns that identifier,
  when the identifier is not empty and has no white space at either end: the resolver
  trims its input before the first query.
\<close>

theorem resolve_canonical:
  "d \<in> set (legal_documents db) \<Longrightarrow> trim (doc_id d) = doc_id d \<Longrightarrow> doc_id d \<noteq> [] \<Longrightarrow>
   resolveDocumentId db (doc_id d) = Some (doc_id d)"
  using find_id [of d "legal_documents db"] by (auto simp: resolveDocumentId_def)

theorem resolve_canonical_witness:
  "resolveDocumentId exampleStore ''evidence-act'' = Some ''evidence-act''"
proof -
  let ?d = "\<lparr>doc_id = ''evidence-act'', doc_title = ''Evidence Act'',
            doc_short_name = ''Evidence Act'', doc_title_en = ''Evidence Act'',
            doc_status = ''not_yet_in_force''\<rparr>"
  have mem: "?d \<in> set (legal_documents exampleStore)"
    by (simp add: exampleStore_def)
  have trimmed: "trim (doc_id ?d) = doc_id ?d"
    by code_simp
  have nonempty: "doc_id ?d \<noteq> []"
    by simp
  show ?thesis
    using resolve_canonical [OF mem trimmed nonempty] by simp
qed

text \<open>
  C7 as stated fails: the identifier \<open>'' kica''\<close> is the id of a stored document, and
  resolving it finds nothing.
\<close>

theorem resolve_padded_identifier:
  "'' kica'' \<in> doc_id ` set (legal_documents paddedStore) \<and>
   resolveDocumentId paddedStore '' kica'' = None"
  by code_simp

lemma find_not_None: "x \<in> set xs \<Longrightarrow> P x \<Longrightarrow> find P xs \<noteq> None"
  by (induction xs) auto

lemma point_lookup_finds:
  assumes "resolveDocumentId db input = Some i"
  shows "\<exists>doc. find (\<lambda>d. Some (doc_id d) = Some i) (legal_documents db) = Some doc"
proof -
  from resolve_in_store [OF assms] obtain d where "d \<in> set (legal_documents db)" "doc_id d = i"
    by blast
  then have "find (\<lambda>d. Some (doc_id d) = Some i) (legal_documents db) \<noteq> None"
    by (intro find_not_None [of d]) simp_all
  then show ?thesis by auto
qed

lemma sql_lower_char_idem: "sql_lower_char (sql_lower_char c) = sql_lower_char c"
  by (cases c) (simp add: sql_lower_char_Char)

lemma sql_lower_char_wild:
  "sql_lower_char c = CHR ''%'' \<longleftrightarrow> c = CHR ''%''"
  "sql_lower_char c = CHR ''_'' \<longleftrightarrow> c = CHR ''_''"
  by (cases c; auto simp: sql_lower_char_Char split: if_splits)+

text \<open>
  \<open>LIKE\<close> on lower-cased operands is \<open>LIKE\<close> on the operands themselves, so the fifth
  query of the resolver finds a row only where the fourth has found one.
\<close>

lemma sql_like_lower: "sql_like (sql_lower p) (sql_lower s) = sql_like p s"
proof (induction p s rule: sql_like.induct)
  case (1 s)
  show ?case by (simp add: sql_lower_def)
next
  case (2 p ps)
  then show ?case by (simp add: sql_lower_def sql_lower_char_wild)
next
  case (3 p ps c cs)
  then show ?case
    by (simp add: sql_lower_def sql_lower_char_wild sql_lower_char_idem)
qed

lemma fallback_query_dead:
  "find (\<lambda>d. sql_like (sql_lower (contains_pattern t)) (sql_lower (doc_title d)) \<or>
                sql_like (sql_lower (contains_pattern t)) (sql_lower (doc_short_name d)) \<or>
                sql_like (sql_lower (contains_pattern t)) (sql_lower (doc_title_en d))) ds =
   find (\<lambda>d. sql_like (contains_pattern t) (doc_title d) \<or>
                sql_like (contains_pattern t) (doc_short_name d) \<or>
                sql_like (contains_pattern t) (doc_title_en d)) ds"
  by (simp add: sql_like_lower)

text \<open>
  C4: what the code does. The fourth query is not a case-sensitive substring match:
  \<open>LIKE\<close> folds the case of ASCII letters, so for the reference \<open>Evidence Act\<close> the
  resolver answers with the first document, whose title holds these words in capitals
  only, where the cascade with a case-sensitive step (4) answers with the second.
\<close>

theorem resolve_like_folds_case:
  "resolveDocumentId caseStore ''Evidence Act'' = Some ''evidence-act-old'' \<and>
   cascade js_includes caseStore ''Evidence Act'' = Some ''evidence-act''"
  by code_simp

section \<open>Properties of the validator\<close>

lemma validate_returns: "\<exists>r. validateCitationTool db c = Inr r"
proof (cases "parseCitation c")
  case None
  then show ?thesis by (simp add: validateCitationTool_def)
next
  case (Some parsed)
  show ?thesis
  proof (cases "resolveDocumentId db (documentRef parsed)")
    case None
    with Some show ?thesis by (simp add: validateCitationTool_def truthy_def)
  next
    case (Some i)
    from point_lookup_finds [OF Some] obtain doc
      where "find (\<lambda>d. Some (doc_id d) = Some i) (legal_documents db) = Some doc" by blast
    with Some \<open>parseCitation c = Some parsed\<close> show ?thesis
      by (simp add: validateCitationTool_def Let_def split: option.splits)
  qed
qed

text \<open>
  C9. An identifier the resolver returns is the id of a stored document, the point lookup
  by that identifier finds a row, and the validator returns a result for every store and
  every citation: it never reads a field of a missing row.
\<close>

theorem resolved_document_is_stored:
  "(resolveDocumentId db input = Some i \<longrightarrow>
      (\<exists>d \<in> set (legal_documents db). doc_id d = i) \<and>
      find (\<lambda>d. doc_id d = i) (legal_documents db) \<noteq> None) \<and>
   (\<exists>r. validateCitationTool db c = Inr r)"
  using resolve_in_store [of db input i] point_lookup_finds [of db input i]
    validate_returns [of db c]
  by auto

theorem resolved_document_is_stored_witness:
  "resolveDocumentId exampleStore ''dpa 2019'' = Some ''data-protection-act-2019'' \<and>
   find (\<lambda>d. doc_id d = ''data-protection-act-2019'') (legal_documents exampleStore) \<noteq> None \<and>
   (\<exists>r. validateCitationTool exampleStore ''Section 25, dpa 2019'' = Inr r)"
proof -
  have r: "resolveDocumentId exampleStore ''dpa 2019'' = Some ''data-protection-act-2019''"
    by code_simp
  show ?thesis
    using resolved_document_is_stored [of exampleStore "''dpa 2019''"
        "''data-protection-act-2019''" "''Section 25, dpa 2019''"] r
    by simp
qed

lemma no_match_empty:
  "js_match True parse_secFirst [] = None" "js_match True parse_artFirst [] = None"
  "js_match True parse_secLast [] = None" "js_match True parse_artLast [] = None"
  by code_simp+

lemma parseCitation_whitespace:
  "list_all isWhiteSpace s \<Longrightarrow> parseCitation s = Some \<lparr>documentRef = [], sectionRef = None\<rparr>"
  by (simp add: parseCitation_def trim_whitespace no_match_empty)

text \<open>
  C1: what the code does. A citation of white space only (the empty citation too) is
  not a parse failure: \<open>parseCitation\<close> returns the empty document reference, and the
  validator answers with the warning of an unresolved document, \<open>Document not found: ""\<close>,
  not with \<open>Could not parse citation format\<close>.
\<close>

theorem validate_whitespace:
  "list_all isWhiteSpace s \<Longrightarrow>
   parseCitation s = Some \<lparr>documentRef = [], sectionRef = None\<rparr> \<and>
   validateCitationTool db s =
     Inr \<lparr>valid = False, citation = s, normalized = None, document_id = None,
          document_title = None, result_provision_ref = None, result_status = None,
          warnings = [''Document not found: '' @ dq @ dq]\<rparr>"
  by (simp add: validateCitationTool_def parseCitation_whitespace resolve_empty truthy_def)

theorem validate_whitespace_witness:
  "list_all isWhiteSpace ''   '' \<and>
   validateCitationTool exampleStore ''   '' =
     Inr \<lparr>valid = False, citation = ''   '', normalized = None, document_id = None,
          document_title = None, result_provision_ref = None, result_status = None,
          warnings = [''Document not found: '' @ dq @ dq]\<rparr>"
proof -
  have ws: "list_all isWhiteSpace ''   ''"
    by code_simp
  show ?thesis
    using validate_whitespace [OF ws, of exampleStore] ws by simp
qed

text \<open>
  C2, as amended. For a citation that parses and resolves to a document: when the status
  of the document is repealed, amended or partially suspended, the result has at least
  one warning; for every other status (in force, not yet in force) there is no status
  warning, so a valid result has no warning at all and an invalid one has the single
  warning of the provision, or the document, that was not found.
\<close>

theorem status_warning_surfaced:
  assumes "parseCitation c = Some parsed"
    and "resolveDocumentId db (documentRef parsed) = Some i"
    and "find (\<lambda>d. doc_id d = i) (legal_documents db) = Some doc"
  shows "\<exists>r. validateCitationTool db c = Inr r \<and>
           (doc_status doc = ''repealed'' \<or> doc_status doc = ''amended'' \<or>
            doc_status doc = ''partially_suspended'' \<longrightarrow> warnings r \<noteq> []) \<and>
           (doc_status doc \<noteq> ''repealed'' \<and> doc_status doc \<noteq> ''amended'' \<and>
            doc_status doc \<noteq> ''partially_suspended'' \<longrightarrow>
              statusWarnings (doc_status doc) = [] \<and>
              (valid r \<longrightarrow> warnings r = []) \<and>
              (\<not> valid r \<longrightarrow>
                 warnings r =
                   [''Provision '' @ dq @ (case sectionRef parsed of Some t \<Rightarrow> t | None \<Rightarrow> []) @ dq @
                    '' not found in '' @ doc_title doc] \<or>
                 warnings r = [''Document not found: '' @ dq @ documentRef parsed @ dq]))"
  using assms
  by (auto simp: validateCitationTool_def Let_def statusWarnings_def split: option.splits)

theorem status_warning_surfaced_witness:
  "(\<exists>r. validateCitationTool exampleStore ''CMCA 2018'' = Inr r \<and> warnings r \<noteq> []) \<and>
   (\<exists>r. validateCitationTool exampleStore ''Section 25, DPA 2019'' = Inr r \<and>
        (valid r \<longrightarrow> warnings r = []))"
proof -
  have p: "parseCitation ''CMCA 2018'' = Some \<lparr>documentRef = ''CMCA 2018'', sectionRef = None\<rparr>"
    by code_simp
  have r: "resolveDocumentId exampleStore
             (documentRef \<lparr>documentRef = ''CMCA 2018'', sectionRef = None\<rparr>)
           = Some ''computer-misuse-cybercrimes-act-2018''"
    by code_simp
  have f: "find (\<lambda>d. doc_id d = ''computer-misuse-cybercrimes-act-2018'')
             (legal_documents exampleStore)
           = Some \<lparr>doc_id = ''computer-misuse-cybercrimes-act-2018'',
                   doc_title = ''Computer Misuse and Cybercrimes Act 2018'',
                   doc_short_name = ''CMCA 2018'',
                   doc_title_en = ''Computer Misuse and Cybercrimes Act 2018'',
                   doc_status = ''partially_suspended''\<rparr>"
    by code_simp
  have p': "parseCitation ''Section 25, DPA 2019'' =
              Some \<lparr>documentRef = ''DPA 2019'', sectionRef = Some ''25''\<rparr>"
    by code_simp
  have r': "resolveDocumentId exampleStore
             (documentRef \<lparr>documentRef = ''DPA 2019'', sectionRef = Some ''25''\<rparr>)
           = Some ''data-protection-act-2019''"
    by code_simp
  have f': "find (\<lambda>d. doc_id d = ''data-protection-act-2019'') (legal_documents exampleStore)
           = Some \<lparr>doc_id = ''data-protection-act-2019'', doc_title = ''Data Protection Act 2019'',
                   doc_short_name = ''DPA 2019'', doc_title_en = ''Data Protection Act 2019'',
                   doc_status = ''in_force''\<rparr>"
    by code_simp
  from status_warning_surfaced [OF p r f]
  have "\<exists>r. validateCitationTool exampleStore ''CMCA 2018'' = Inr r \<and> warnings r \<noteq> []"
    by auto
  moreover from status_warning_surfaced [OF p' r' f']
  have "\<exists>r. validateCitationTool exampleStore ''Section 25, DPA 2019'' = Inr r \<and>
          (valid r \<longrightarrow> warnings r = [])"
    by auto
  ultimately show ?thesis by blast
qed

text \<open>
  C2 as stated fails for the status \<open>not_yet_in_force\<close>: the citation parses, resolves to
  a document of that status, and the result has no warning.
\<close>

theorem not_yet_in_force_no_warning:
  "parseCitation ''Evidence Act'' = Some \<lparr>documentRef = ''Evidence Act'', sectionRef = None\<rparr> \<and>
   resolveDocumentId exampleStore ''Evidence Act'' = Some ''evidence-act'' \<and>
   validateCitationTool exampleStore ''Evidence Act'' =
     Inr \<lparr>valid = True, citation = ''Evidence Act'', normalized = Some ''Evidence Act'',
          document_id = Some ''evidence-act'', document_title = Some ''Evidence Act'',
          result_provision_ref = None, result_status = Some ''not_yet_in_force'',
          warnings = []\<rparr>"
  by code_simp

section \<open>Properties of the formatter\<close>

text \<open>
  C6, as amended. When none of the four patterns of the formatter matches, the formatted
  text is the trimmed citation, in every mode, and the field \<open>original\<close> is the
  citation as it was given.
\<close>

theorem format_fallback:
  assumes "js_match True format_secFirst (trim c) = None"
    and "js_match True format_secLast (trim c) = None"
    and "js_match True format_artFirst (trim c) = None"
    and "js_match True format_artLast (trim c) = None"
  shows "formatted (formatCitationTool c fmt) = trim c \<and>
         original (formatCitationTool c fmt) = c"
  using assms
  by (simp add: formatCitationTool_def Let_def opt_group_def orElse_def truthy_def
      split: citation_format.splits option.splits)

theorem format_fallback_witness:
  "formatted (formatCitationTool ''Evidence Act  '' (Some Pinpoint)) = ''Evidence Act'' \<and>
   original (formatCitationTool ''Evidence Act  '' (Some Pinpoint)) = ''Evidence Act  ''"
proof -
  have t: "trim ''Evidence Act  '' = ''Evidence Act''"
    by code_simp
  have m: "js_match True format_secFirst (trim ''Evidence Act  '') = None"
    "js_match True format_secLast (trim ''Evidence Act  '') = None"
    "js_match True format_artFirst (trim ''Evidence Act  '') = None"
    "js_match True format_artLast (trim ''Evidence Act  '') = None"
    by code_simp+
  show ?thesis
    using format_fallback [OF m, of "Some Pinpoint"] t by simp
qed

text \<open>
  C6 as stated fails: no pattern finds a section token in \<open>'' Evidence Act''\<close>, and the
  formatted text is not the input (the leading space is gone).
\<close>

theorem format_fallback_trims:
  "js_match True format_secFirst (trim '' Evidence Act'') = None \<and>
   js_match True format_secLast (trim '' Evidence Act'') = None \<and>
   js_match True format_artFirst (trim '' Evidence Act'') = None \<and>
   js_match True format_artLast (trim '' Evidence Act'') = None \<and>
   formatted (formatCitationTool '' Evidence Act'' None) = ''Evidence Act'' \<and>
   formatted (formatCitationTool '' Evidence Act'' None) \<noteq> '' Evidence Act''"
  by code_simp

section \<open>Properties of the structural extractor\<close>

lemma extractDefinitions_append:
  "extractDefinitions sec ref defs0 = defs0 @ extractDefinitions sec ref []"
proof -
  have gen: "fold (\<lambda>p defs. defs @ definitionOf ref p) ps acc
        = acc @ fold (\<lambda>p defs. defs @ definitionOf ref p) ps []" for ps acc
  proof (induction ps arbitrary: acc)
    case Nil
    show ?case by simp
  next
    case (Cons p ps)
    show ?case
      using Cons.IH [of "acc @ definitionOf ref p"] Cons.IH [of "definitionOf ref p"]
      by simp
  qed
  show ?thesis
    unfolding extractDefinitions_def Let_def
    by (rule gen)
qed

lemma sectionStep_eq:
  "sectionStep html starts i acc =
     (fst acc @ provisionAt html starts i, snd acc @ definitionsAt html starts i)"
  using extractDefinitions_append [of "sectionHtmlAt html starts i" _ "snd acc"]
  by (cases acc)
     (auto simp: sectionStep_def provisionAt_def definitionsAt_def headingTextAt_def contentAt_def
        provisionRefFor_def definitionTitle_def truthy_def Let_def split: option.splits)

lemma fold_sectionStep:
  "fold (sectionStep html starts) is acc =
     (fst acc @ concat (map (provisionAt html starts) is),
      snd acc @ concat (map (definitionsAt html starts) is))"
  by (induction "is" arbitrary: acc) (simp_all add: sectionStep_eq)

lemma parse_provisions:
  "provisions (parseKenyaLawHtml html act) =
     concat (map (provisionAt html (sectionStarts html)) [0..<length (sectionStarts html)])"
  by (simp add: parseKenyaLawHtml_def Let_def fold_sectionStep)

lemma parse_definitions:
  "definitions (parseKenyaLawHtml html act) =
     concat (map (definitionsAt html (sectionStarts html)) [0..<length (sectionStarts html)])"
  by (simp add: parseKenyaLawHtml_def Let_def fold_sectionStep)

lemma scan_inert:
  assumes "\<And>s. match_at ci n r (a # s) = None" and "match_at ci n r [] = None"
  shows "scan ci n r (replicate k a) 0 = []"
  by (induction k) (simp_all add: assms)

lemma replace_inert:
  assumes "\<And>s. match_at ci n r (a # s) = None" and "match_at ci n r [] = None"
  shows "replace_from ci n r t (replicate k a) 0 = replicate k a"
  by (induction k) (simp_all add: assms)

lemma star_greedy_stop:
  "\<not> p a \<Longrightarrow> star_greedy p k (replicate (Suc m) a) = k (replicate (Suc m) a)"
  by simp

lemma lit_inert:
  "x \<noteq> CHR ''a'' \<Longrightarrow> match_at False n (Lit (x # xs)) (CHR ''a'' # s) = None"
  "match_at False n (Lit (x # xs)) [] = None"
  by (simp_all add: match_at_def canon_def)

lemma replace_lit_inert:
  "x \<noteq> CHR ''a'' \<Longrightarrow>
   replace_from False n (Lit (x # xs)) t (replicate k (CHR ''a'')) 0 = replicate k (CHR ''a'')"
  by (rule replace_inert) (simp_all add: lit_inert)

lemma replace_lit_space:
  "x \<noteq> CHR ''a'' \<Longrightarrow> x \<noteq> CHR '' '' \<Longrightarrow>
   js_replace_all False (Lit (x # xs)) t (CHR '' '' # replicate k (CHR ''a'')) =
     CHR '' '' # replicate k (CHR ''a'')"
  by (simp add: js_replace_all_def match_at_def canon_def replace_lit_inert)

lemma s1:
  \<open>js_replace_all False (seq [Lit ''<'', Plus (NoneOf ''>''), Lit ''>'']) '' ''
     (''<section class="akn-section" id="sec_1" data-eid="sec_1">'' @ replicate k (CHR ''a'')) =
   CHR '' '' # replicate k (CHR ''a'')\<close>
proof -
  have inert: "replace_from False n (Cat (Lit ''<'') (Cat (Plus (NoneOf ''>'')) (Lit ''>''))) t
      (replicate k (CHR ''a'')) 0 = replicate k (CHR ''a'')" for n t
    by (rule replace_inert) (simp_all add: match_at_def canon_def)
  show ?thesis
    by (simp add: js_replace_all_def match_at_def canon_def inert)
qed


lemma s9:
  assumes "0 < k"
  shows "js_replace_all False (Plus Space) '' '' (CHR '' '' # replicate k (CHR ''a'')) =
   CHR '' '' # replicate k (CHR ''a'')"
proof -
  have inert: "replace_from False n (Plus Space) t (replicate m (CHR ''a'')) 0 = replicate m (CHR ''a'')" for n t m
    by (rule replace_inert) (simp_all add: match_at_def isWhiteSpace_def)
  from assms obtain m where k: "k = Suc m" by (cases k) auto
  show ?thesis
    using inert [of _ _ "Suc m"]
    by (simp add: k js_replace_all_def match_at_def isWhiteSpace_def)
qed

lemma trim_a: "trim (CHR '' '' # replicate k (CHR ''a'')) = replicate k (CHR ''a'')"
  by (simp add: trim_def isWhiteSpace_def dropWhile_replicate)

lemma strip_long:
  assumes "0 < k"
  shows \<open>stripHtml (''<section class="akn-section" id="sec_1" data-eid="sec_1">'' @ replicate k (CHR ''a''))
     = replicate k (CHR ''a'')\<close>
  unfolding stripHtml_def Let_def s1
  by (simp add: replace_lit_space s9 [OF assms] trim_a)

lemma long_starts: "sectionStarts longHtml = [(''sec_1'', 0)]"
proof -
  have inert: "scan False n sectionPattern (replicate m (CHR ''a'')) 0 = []" for n m
    by (rule scan_inert) (simp_all add: sectionPattern_def match_at_def canon_def)
  show ?thesis
    unfolding sectionStarts_def longHtml_def
    by (simp add: inert [unfolded sectionPattern_def seq.simps One_nat_def]
          sectionPattern_def match_at_def canon_def isWhiteSpace_def grpText_def grp_def)
qed


lemma long_heading: "headingTextAt longHtml [(''sec_1'', 0)] 0 = Some ''1. Short title''"
  unfolding headingTextAt_def sectionHtmlAt_def longHtml_def
  by (simp add: substring_def js_match_def h3Heading_def match_at_def canon_def grpText_def grp_def
        trim_def isWhiteSpace_def)


lemma long_content: "contentAt longHtml [(''sec_1'', 0)] 0 = replicate 12001 (CHR ''a'')"
proof -
  have a: \<open>js_replace False h3Element [] (sectionHtmlAt longHtml [(''sec_1'', 0)] 0) =
          ''<section class="akn-section" id="sec_1" data-eid="sec_1">'' @ replicate 12001 (CHR ''a'')\<close>
    unfolding sectionHtmlAt_def longHtml_def
    by (simp add: substring_def js_replace_def js_match_def h3Element_def match_at_def canon_def)
  have b: \<open>stripHtml (''<section class="akn-section" id="sec_1" data-eid="sec_1">'' @
      replicate 12001 (CHR ''a'')) = replicate 12001 (CHR ''a'')\<close>
    by (rule strip_long) simp
  show ?thesis
    unfolding contentAt_def a by (rule b)
qed

lemma long_heading_parts:
  "extractSectionNumber ''1. Short title'' = Some ''1''"
  "extractSectionTitle ''1. Short title'' = ''Short title''"
  "extractChapter ''sec_1'' = None"
  "provisionRefFor ''sec_1'' ''1'' = ''s1''"
  by code_simp+

text \<open>
  C8. The provisions of the result are, in the order of the sections, what each section
  adds, and a section adds nothing or one provision: the one made of its own identifier,
  its own heading and the first 12000 characters of its own stripped content, and only
  when that stripped content is longer than 10 characters. So the content of every
  provision has at most 12000 characters, and is cut at exactly that length.
\<close>

theorem provision_content_capped:
  "provisions (parseKenyaLawHtml html act) =
     concat (map (provisionAt html (sectionStarts html)) [0..<length (sectionStarts html)]) \<and>
   (\<forall>i < length (sectionStarts html).
      provisionAt html (sectionStarts html) i = [] \<or>
      (\<exists>h num.
         headingTextAt html (sectionStarts html) i = Some h \<and>
         extractSectionNumber h = Some num \<and>
         10 < length (contentAt html (sectionStarts html) i) \<and>
         provisionAt html (sectionStarts html) i =
           [\<lparr>provision_ref = provisionRefFor (fst (sectionStarts html ! i)) num,
             chapter = extractChapter (fst (sectionStarts html ! i)),
             section = num, title = extractSectionTitle h,
             content = take 12000 (contentAt html (sectionStarts html) i)\<rparr>])) \<and>
   (\<forall>p \<in> set (provisions (parseKenyaLawHtml html act)). length (content p) \<le> 12000)"
proof (intro conjI allI impI ballI)
  show "provisions (parseKenyaLawHtml html act) =
     concat (map (provisionAt html (sectionStarts html)) [0..<length (sectionStarts html)])"
    by (rule parse_provisions)
next
  fix i
  show "provisionAt html (sectionStarts html) i = [] \<or>
      (\<exists>h num.
         headingTextAt html (sectionStarts html) i = Some h \<and>
         extractSectionNumber h = Some num \<and>
         10 < length (contentAt html (sectionStarts html) i) \<and>
         provisionAt html (sectionStarts html) i =
           [\<lparr>provision_ref = provisionRefFor (fst (sectionStarts html ! i)) num,
             chapter = extractChapter (fst (sectionStarts html ! i)),
             section = num, title = extractSectionTitle h,
             content = take 12000 (contentAt html (sectionStarts html) i)\<rparr>])"
    by (simp add: provisionAt_def split: option.splits)
next
  fix p
  assume "p \<in> set (provisions (parseKenyaLawHtml html act))"
  then obtain i where "p \<in> set (provisionAt html (sectionStarts html) i)"
    by (auto simp: parse_provisions)
  then show "length (content p) \<le> 12000"
    by (auto simp: provisionAt_def split: option.splits if_splits)
qed

theorem provision_content_capped_witness:
  "provisions (parseKenyaLawHtml longHtml exampleAct) =
     [\<lparr>provision_ref = ''s1'', chapter = None, section = ''1'', title = ''Short title'',
       content = replicate 12000 (CHR ''a'')\<rparr>] \<and>
   length (contentAt longHtml (sectionStarts longHtml) 0) = 12001"
  using provision_content_capped [of longHtml exampleAct]
  by (simp add: long_starts long_heading long_content long_heading_parts provisionAt_def)

lemma extractChapter_part: "extractChapter (''part_III__'' @ rest) = Some ''Part III''"
  by (simp add: extractChapter_def js_match_def match_at_def grpText_def grp_def canon_def)

lemma heading25:
  "extractSectionNumber ''25. Principles of data protection'' = Some ''25''"
  "extractSectionTitle ''25. Principles of data protection'' = ''Principles of data protection''"
  by code_simp+

lemma partHtml_facts:
  "sectionStarts partHtml = [(''part_III__sec_25'', 0)]"
  "headingTextAt partHtml [(''part_III__sec_25'', 0)] 0 = Some ''25. Principles of data protection''"
  "contentAt partHtml [(''part_III__sec_25'', 0)] 0 = ''Process data lawfully.''"
  "js_includes ''part_III__sec_25'' ''__art_'' = False"
  by code_simp+

lemma nestedHtml_facts:
  "sectionStarts nestedHtml = [(''chp_2__part_III__sec_25'', 0)]"
  "headingTextAt nestedHtml [(''chp_2__part_III__sec_25'', 0)] 0 = Some ''25. Principles of data protection''"
  "contentAt nestedHtml [(''chp_2__part_III__sec_25'', 0)] 0 = ''Process data lawfully.''"
  "js_includes ''chp_2__part_III__sec_25'' ''__art_'' = False"
  "js_includes ''chp_2__part_III__sec_25'' ''part_III__sec_25'' = True"
  "extractChapter ''chp_2__part_III__sec_25'' = Some ''Chapter 2''"
  by code_simp+

text \<open>
  C5, as amended. A section whose element id starts with \<open>part_III__\<close> and has no
  \<open>__art_\<close> segment, whose heading is \<open>25. Principles of data protection\<close> and whose
  stripped content is longer than 10 characters, is emitted as the provision with section
  \<open>25\<close>, that title, chapter \<open>Part III\<close> and provision reference \<open>s25\<close>.
\<close>

theorem part_section_provision:
  assumes "i < length (sectionStarts html)"
    and "fst (sectionStarts html ! i) = ''part_III__'' @ rest"
    and "\<not> js_includes (fst (sectionStarts html ! i)) ''__art_''"
    and "headingTextAt html (sectionStarts html) i = Some ''25. Principles of data protection''"
    and "10 < length (contentAt html (sectionStarts html) i)"
  shows "\<lparr>provision_ref = ''s25'', chapter = Some ''Part III'', section = ''25'',
          title = ''Principles of data protection'',
          content = take 12000 (contentAt html (sectionStarts html) i)\<rparr>
         \<in> set (provisions (parseKenyaLawHtml html act))"
proof -
  have "provisionAt html (sectionStarts html) i =
          [\<lparr>provision_ref = ''s25'', chapter = Some ''Part III'', section = ''25'',
            title = ''Principles of data protection'',
            content = take 12000 (contentAt html (sectionStarts html) i)\<rparr>]"
    using assms(2-5) extractChapter_part [of rest]
    by (simp add: provisionAt_def provisionRefFor_def heading25)
  with assms(1) show ?thesis
    by (force simp: parse_provisions)
qed

theorem part_section_provision_witness:
  "\<lparr>provision_ref = ''s25'', chapter = Some ''Part III'', section = ''25'',
     title = ''Principles of data protection'', content = ''Process data lawfully.''\<rparr>
   \<in> set (provisions (parseKenyaLawHtml partHtml exampleAct))"
  using part_section_provision [of 0 partHtml "''sec_25''" exampleAct]
  by (simp add: partHtml_facts)

text \<open>
  C5 as stated fails: the id \<open>chp_2__part_III__sec_25\<close> contains \<open>part_III__sec_25\<close>, and
  the provision of that section has the chapter \<open>Chapter 2\<close>.
\<close>

theorem nested_part_is_chapter:
  "map fst (sectionStarts nestedHtml) = [''chp_2__part_III__sec_25''] \<and>
   js_includes ''chp_2__part_III__sec_25'' ''part_III__sec_25'' \<and>
   headingTextAt nestedHtml (sectionStarts nestedHtml) 0 = Some ''25. Principles of data protection'' \<and>
   provisions (parseKenyaLawHtml nestedHtml exampleAct) =
     [\<lparr>provision_ref = ''s25'', chapter = Some ''Chapter 2'', section = ''25'',
       title = ''Principles of data protection'', content = ''Process data lawfully.''\<rparr>]"
  by (simp add: parse_provisions provisionAt_def provisionRefFor_def nestedHtml_facts heading25)

lemma definitionOf_source:
  "d \<in> set (definitionOf ref p) \<Longrightarrow> source_provision d = Some ref"
  by (auto simp: definitionOf_def Let_def split: option.splits if_splits)

lemma fold_append_concat:
  "fold (\<lambda>p defs. defs @ f p) ps acc = acc @ concat (map f ps)"
  by (induction ps arbitrary: acc) simp_all

lemma extractDefinitions_source:
  "d \<in> set (extractDefinitions sec ref []) \<Longrightarrow> source_provision d = Some ref"
  by (auto simp: extractDefinitions_def Let_def fold_append_concat dest: definitionOf_source)


lemma interpretationHtml_facts:
  "sectionStarts interpretationHtml = [(''part_I__sec_2'', 0)]"
  "headingTextAt interpretationHtml [(''part_I__sec_2'', 0)] 0 = Some ''2. Interpretation''"
  "extractSectionNumber ''2. Interpretation'' = Some ''2''"
  "definitionTitle (extractSectionTitle ''2. Interpretation'')"
  "provisionRefFor ''part_I__sec_2'' ''2'' = ''s2''"
  by code_simp+

lemma interpretationHtml_elements:
  \<open>js_match_all False pElementPattern (sectionHtmlAt interpretationHtml [(''part_I__sec_2'', 0)] 0) =
     [''<span class="akn-p">"data" means recorded information;</span>'']\<close>
  \<open>definitionOf ''s2'' ''<span class="akn-p">"data" means recorded information;</span>'' =
     [\<lparr>term = ''data'', definition = ''recorded information'', source_provision = Some ''s2''\<rparr>]\<close>
  by code_simp+

lemma interpretationHtml_definitions:
  "extractDefinitions (sectionHtmlAt interpretationHtml [(''part_I__sec_2'', 0)] 0) ''s2'' [] =
     [\<lparr>term = ''data'', definition = ''recorded information'', source_provision = Some ''s2''\<rparr>]"
  by (simp add: extractDefinitions_def interpretationHtml_elements)


section \<open>Properties of the matcher\<close>

text \<open>Every match of \<open>rmatch\<close> has the form of its pattern.\<close>

lemma lit_match_sound:
  "lit_match ci l s = Some s' \<Longrightarrow> \<exists>u. s = u @ s' \<and> map (canon ci) u = map (canon ci) l"
proof (induction ci l s rule: lit_match.induct)
  case (1 ci s)
  then show ?case by simp
next
  case (2 ci x xs)
  then show ?case by simp
next
  case (3 ci x xs c cs)
  show ?case
  proof (cases "canon ci x = canon ci c")
    case True
    with 3 obtain u where "cs = u @ s'" "map (canon ci) u = map (canon ci) xs" by auto
    with True have "c # cs = (c # u) @ s' \<and> map (canon ci) (c # u) = map (canon ci) (x # xs)"
      by simp
    then show ?thesis by blast
  next
    case False
    with 3 show ?thesis by simp
  qed
qed

lemma star_greedy_sound:
  "star_greedy p k s = Some x \<Longrightarrow> \<exists>u s'. s = u @ s' \<and> list_all p u \<and> k s' = Some x"
proof (induction s)
  case Nil
  then show ?case by simp
next
  case (Cons c cs)
  show ?case
  proof (cases "p c \<and> star_greedy p k cs \<noteq> None")
    case True
    with Cons.prems have "star_greedy p k cs = Some x" by auto
    with Cons.IH obtain u s' where "cs = u @ s'" "list_all p u" "k s' = Some x" by blast
    with True have "c # cs = (c # u) @ s' \<and> list_all p (c # u) \<and> k s' = Some x" by simp
    then show ?thesis by blast
  next
    case False
    with Cons.prems have "k (c # cs) = Some x" by (auto split: if_splits option.splits)
    then have "c # cs = [] @ (c # cs) \<and> list_all p [] \<and> k (c # cs) = Some x" by simp
    then show ?thesis by blast
  qed
qed

lemma star_lazy_sound:
  "star_lazy p k s = Some x \<Longrightarrow> \<exists>u s'. s = u @ s' \<and> list_all p u \<and> k s' = Some x"
proof (induction s)
  case Nil
  then show ?case by simp
next
  case (Cons c cs)
  show ?case
  proof (cases "k (c # cs)")
    case (Some y)
    with Cons.prems have "c # cs = [] @ (c # cs) \<and> list_all p [] \<and> k (c # cs) = Some x" by simp
    then show ?thesis by blast
  next
    case None
    with Cons.prems have pc: "p c" and "star_lazy p k cs = Some x"
      by (auto split: if_splits)
    with Cons.IH obtain u s' where "cs = u @ s'" "list_all p u" "k s' = Some x" by blast
    with pc have "c # cs = (c # u) @ s' \<and> list_all p (c # u) \<and> k s' = Some x" by simp
    then show ?thesis by blast
  qed
qed

lemma rmatch_sound:
  "rmatch ci n r k s cs = Some x \<Longrightarrow>
   \<exists>u rest cs'. s = u @ rest \<and> denotes ci n r u rest cs' \<and> k rest (cs' @ cs) = Some x"
proof (induction r arbitrary: k s cs)
  case Eps
  then show ?case by simp
next
  case (Lit l)
  then obtain s' where m: "lit_match ci l s = Some s'" and k: "k s' cs = Some x"
    by (auto split: option.splits)
  from lit_match_sound [OF m] obtain u where "s = u @ s'" "map (canon ci) u = map (canon ci) l"
    by blast
  with k have "s = u @ s' \<and> denotes ci n (Lit l) u s' [] \<and> k s' ([] @ cs) = Some x" by simp
  then show ?case by blast
next
  case (Cls c)
  then obtain y ys where "s = y # ys" "in_class c y" "k ys cs = Some x"
    by (auto split: list.splits if_splits)
  then have "s = [y] @ ys \<and> denotes ci n (Cls c) [y] ys [] \<and> k ys ([] @ cs) = Some x" by simp
  then show ?case by blast
next
  case (Star c)
  then have "star_greedy (in_class c) (\<lambda>s'. k s' cs) s = Some x" by simp
  from star_greedy_sound [OF this] obtain u s' where
    "s = u @ s'" "list_all (in_class c) u" "k s' cs = Some x" by blast
  then have "s = u @ s' \<and> denotes ci n (Star c) u s' [] \<and> k s' ([] @ cs) = Some x" by simp
  then show ?case by blast
next
  case (Plus c)
  then obtain y ys where s: "s = y # ys" "in_class c y"
    and "star_greedy (in_class c) (\<lambda>s'. k s' cs) ys = Some x"
    by (auto split: list.splits if_splits)
  from star_greedy_sound [OF this(3)] obtain u s' where
    "ys = u @ s'" "list_all (in_class c) u" "k s' cs = Some x" by blast
  with s have "s = (y # u) @ s' \<and> denotes ci n (Plus c) (y # u) s' [] \<and> k s' ([] @ cs) = Some x"
    by simp
  then show ?case by blast
next
  case (PlusLazy c)
  then obtain y ys where s: "s = y # ys" "in_class c y"
    and "star_lazy (in_class c) (\<lambda>s'. k s' cs) ys = Some x"
    by (auto split: list.splits if_splits)
  from star_lazy_sound [OF this(3)] obtain u s' where
    "ys = u @ s'" "list_all (in_class c) u" "k s' cs = Some x" by blast
  with s have "s = (y # u) @ s' \<and> denotes ci n (PlusLazy c) (y # u) s' [] \<and> k s' ([] @ cs) = Some x"
    by simp
  then show ?case by blast
next
  case (Opt r)
  show ?case
  proof (cases "rmatch ci n r k s cs")
    case None
    with Opt.prems have "k s cs = Some x" by simp
    then have "s = [] @ s \<and> denotes ci n (Opt r) [] s [] \<and> k s ([] @ cs) = Some x" by simp
    then show ?thesis by blast
  next
    case (Some y)
    with Opt.prems have "rmatch ci n r k s cs = Some x" by simp
    from Opt.IH [OF this] show ?thesis by auto
  qed
next
  case (Alt r1 r2)
  show ?case
  proof (cases "rmatch ci n r1 k s cs")
    case None
    with Alt.prems have "rmatch ci n r2 k s cs = Some x" by simp
    from Alt.IH(2) [OF this] show ?thesis by auto
  next
    case (Some y)
    with Alt.prems have "rmatch ci n r1 k s cs = Some x" by simp
    from Alt.IH(1) [OF this] show ?thesis by auto
  qed
next
  case (Cat r1 r2)
  then have "rmatch ci n r1 (\<lambda>s' cs'. rmatch ci n r2 k s' cs') s cs = Some x" by simp
  from Cat.IH(1) [OF this] obtain u1 rest1 c1 where
    1: "s = u1 @ rest1" "denotes ci n r1 u1 rest1 c1" "rmatch ci n r2 k rest1 (c1 @ cs) = Some x"
    by blast
  from Cat.IH(2) [OF 1(3)] obtain u2 rest c2 where
    2: "rest1 = u2 @ rest" "denotes ci n r2 u2 rest c2" "k rest (c2 @ c1 @ cs) = Some x"
    by blast
  from 1 2 have "s = (u1 @ u2) @ rest \<and> denotes ci n (Cat r1 r2) (u1 @ u2) rest (c2 @ c1) \<and>
      k rest ((c2 @ c1) @ cs) = Some x"
    by auto
  then show ?case by blast
next
  case (Grp g r)
  then have "rmatch ci n r (\<lambda>s' cs'. k s' ((g, take (length s - length s') s) # cs')) s cs = Some x"
    by simp
  from Grp.IH [OF this] obtain u rest c where
    "s = u @ rest" "denotes ci n r u rest c"
    "k rest ((g, take (length s - length rest) s) # c @ cs) = Some x"
    by blast
  then have "s = u @ rest \<and> denotes ci n (Grp g r) u rest ((g, u) # c) \<and>
      k rest (((g, u) # c) @ cs) = Some x"
    by simp
  then show ?case by blast
next
  case Bol
  then have "length s = n" "k s cs = Some x" by (auto split: if_splits)
  then have "s = [] @ s \<and> denotes ci n Bol [] s [] \<and> k s ([] @ cs) = Some x" by simp
  then show ?case by blast
next
  case Eol
  then have "s = []" "k s cs = Some x" by (auto split: if_splits)
  then have "s = [] @ [] \<and> denotes ci n Eol [] [] [] \<and> k [] ([] @ cs) = Some x" by simp
  then show ?case by blast
qed

text \<open>The rules of \<open>takes\<close>, by which a match is built from the matches of its parts.\<close>

lemma takesI:
  "(\<And>(k :: string \<Rightarrow> captures \<Rightarrow> (nat \<times> captures) option) cs x.
      k rest (cs' @ cs) = Some x \<Longrightarrow> rmatch ci n r k (u @ rest) cs = Some x) \<Longrightarrow>
   takes ci n r u rest cs'"
  unfolding takes_def by blast

lemma takesD:
  fixes k :: "string \<Rightarrow> captures \<Rightarrow> (nat \<times> captures) option"
  shows "takes ci n r u rest cs' \<Longrightarrow> k rest (cs' @ cs) = Some x \<Longrightarrow>
    rmatch ci n r k (u @ rest) cs = Some x"
  unfolding takes_def by blast

lemma star_greedy_all:
  "list_all p xs \<Longrightarrow> ys = [] \<or> \<not> p (hd ys) \<Longrightarrow> k ys = Some r \<Longrightarrow>
   star_greedy p k (xs @ ys) = Some r"
proof (induction xs)
  case Nil
  then show ?case by (cases ys) auto
next
  case (Cons x xs)
  then show ?case by simp
qed

lemma lit_match_prefix:
  "map (canon ci) u = map (canon ci) l \<Longrightarrow> lit_match ci l (u @ rest) = Some rest"
proof (induction l arbitrary: u)
  case Nil
  then show ?case by simp
next
  case (Cons x xs)
  then obtain c cs where "u = c # cs" by (cases u) auto
  with Cons show ?case by auto
qed

lemma takes_Lit: "map (canon ci) u = map (canon ci) l \<Longrightarrow> takes ci n (Lit l) u rest []"
  by (rule takesI) (simp add: lit_match_prefix)

lemma takes_Star:
  "list_all (in_class c) u \<Longrightarrow> rest = [] \<or> \<not> in_class c (hd rest) \<Longrightarrow>
   takes ci n (Star c) u rest []"
  by (rule takesI) (simp add: star_greedy_all)

lemma takes_Plus:
  "u \<noteq> [] \<Longrightarrow> list_all (in_class c) u \<Longrightarrow> rest = [] \<or> \<not> in_class c (hd rest) \<Longrightarrow>
   takes ci n (Plus c) u rest []"
  by (rule takesI) (cases u; simp add: star_greedy_all)

lemma takes_Alt1: "takes ci n r u rest cs \<Longrightarrow> takes ci n (Alt r r') u rest cs"
  by (rule takesI) (simp add: takesD)

lemma takes_Cat:
  "takes ci n r u1 (u2 @ rest) c1 \<Longrightarrow> takes ci n r' u2 rest c2 \<Longrightarrow>
   takes ci n (Cat r r') (u1 @ u2) rest (c2 @ c1)"
  by (rule takesI) (simp add: takesD)

lemma takes_Grp: "takes ci n r u rest c \<Longrightarrow> takes ci n (Grp g r) u rest ((g, u) # c)"
proof (rule takesI)
  fix k :: "string \<Rightarrow> captures \<Rightarrow> (nat \<times> captures) option" and cs x
  assume r: "takes ci n r u rest c" and k: "k rest (((g, u) # c) @ cs) = Some x"
  let ?k = "\<lambda>s' cs'. k s' ((g, take (length (u @ rest) - length s') (u @ rest)) # cs')"
  from k have "?k rest (c @ cs) = Some x" by simp
  from takesD [OF r, of ?k, OF this] show "rmatch ci n (Grp g r) k (u @ rest) cs = Some x"
    by simp
qed

lemma takes_Bol: "length rest = n \<Longrightarrow> takes ci n Bol [] rest []"
  by (rule takesI) simp

lemma takes_Eol: "takes ci n Eol [] [] []"
  by (rule takesI) simp

lemma class_facts:
  "in_class Digit c \<Longrightarrow> \<not> isWhiteSpace c"
  "in_class Alpha c \<Longrightarrow> \<not> in_class Digit c"
  "\<not> in_class Digit (CHR '','')" "\<not> in_class Alpha (CHR '','')" "\<not> isWhiteSpace (CHR '','')"
  "isWhiteSpace (CHR '' '')"
  by (auto simp: isWhiteSpace_def upperAZ_def lowerAZ_def)

lemma in_class_Space [simp]: "in_class Space = isWhiteSpace"
  by (rule ext) simp

lemma takes_match_at: "takes ci n r u [] cs \<Longrightarrow> match_at ci n r u = Some (length u, cs)"
  using takesD [of ci n r u "[]" cs "\<lambda>s' cs. Some (length u - length s', cs)" "[]"]
  by (simp add: match_at_def)

lemma js_match_at_start:
  "match_at ci (length s) r s = Some (l, cs) \<Longrightarrow>
   js_match ci r s = Some \<lparr>index = 0, len = l, groups = cs\<rparr>"
  by (cases s) (simp_all add: js_match_def)

lemma search_Bol_None: "length s < n \<Longrightarrow> search ci n (Cat Bol r) s = None"
  by (induction s) (simp_all add: match_at_def)

lemma js_match_anchored_None:
  "match_at ci (length s) (Cat Bol r) s = None \<Longrightarrow> js_match ci (Cat Bol r) s = None"
  by (cases s) (simp_all add: js_match_def search_Bol_None)

lemma trim_core:
  assumes "A \<noteq> []" "\<not> isWhiteSpace (hd A)" "\<not> isWhiteSpace (last A)" "list_all isWhiteSpace W"
  shows "trim (A @ W) = A"
proof -
  from assms(1,2) have front: "dropWhile isWhiteSpace (A @ W) = A @ W"
    by (cases A) simp_all
  have "dropWhile isWhiteSpace (rev W @ rev A) = dropWhile isWhiteSpace (rev A)"
    by (rule dropWhile_append2) (use assms(4) in \<open>auto simp: list_all_iff\<close>)
  also from assms(1,3) have "\<dots> = rev A"
    by (cases "rev A") (simp_all add: last_rev [symmetric] del: last_rev)
  finally show ?thesis
    by (simp add: trim_def front)
qed

lemma trim_decomp:
  assumes "trim R \<noteq> []"
  shows "\<exists>W1 W2. R = W1 @ trim R @ W2 \<and> list_all isWhiteSpace W1 \<and> list_all isWhiteSpace W2"
    and "\<not> isWhiteSpace (hd (trim R))" and "\<not> isWhiteSpace (last (trim R))"
proof -
  let ?D = "dropWhile isWhiteSpace R"
  let ?E = "dropWhile isWhiteSpace (rev ?D)"
  have t: "trim R = rev ?E" by (simp add: trim_def)
  have "rev (takeWhile isWhiteSpace (rev ?D) @ ?E) = ?D"
    by (simp only: takeWhile_dropWhile_id rev_rev_ident)
  then have "rev ?E @ rev (takeWhile isWhiteSpace (rev ?D)) = ?D"
    by (simp only: rev_append)
  then have D: "?D = trim R @ rev (takeWhile isWhiteSpace (rev ?D))"
    by (simp only: t)
  have "R = takeWhile isWhiteSpace R @ ?D" by simp
  with D have "R = takeWhile isWhiteSpace R @ trim R @ rev (takeWhile isWhiteSpace (rev ?D))"
    by simp
  moreover have "list_all isWhiteSpace (takeWhile isWhiteSpace R)"
    by (simp add: list_all_iff) (meson set_takeWhileD)
  moreover have "list_all isWhiteSpace (rev (takeWhile isWhiteSpace (rev ?D)))"
    by (simp add: list_all_iff) (meson set_takeWhileD)
  ultimately show "\<exists>W1 W2. R = W1 @ trim R @ W2 \<and> list_all isWhiteSpace W1 \<and> list_all isWhiteSpace W2"
    by blast
  from assms t have E: "?E \<noteq> []" by simp
  then have "\<not> isWhiteSpace (hd ?E)" by (rule hd_dropWhile)
  with E show "\<not> isWhiteSpace (last (trim R))"
    by (simp add: t last_rev)
  from assms D have "?D \<noteq> []" by (metis append_is_Nil_conv)
  then have "\<not> isWhiteSpace (hd ?D)" by (rule hd_dropWhile)
  moreover from D assms have "hd ?D = hd (trim R)"
    by (metis hd_append2)
  ultimately show "\<not> isWhiteSpace (hd (trim R))" by simp
qed

lemma parse_tail_takes:
  assumes N: "numToken N" and W1: "list_all isWhiteSpace W1"
    and C: "C \<noteq> []" "\<not> isWhiteSpace (hd C)" "list_all (in_class Dot) C"
  shows "takes True n
           (seq [Star Space, Grp 1 numTok, Star Space, ofThe, Plus Space, Grp 2 (Plus Dot), Eol])
           ('' '' @ N @ '', '' @ W1 @ C) [] [(2, C), (1, N)]"
proof -
  from N obtain ds ls where N': "N = ds @ ls" "ds \<noteq> []" "list_all (in_class Digit) ds"
    "list_all (in_class Alpha) ls"
    by (auto simp: numToken_def)
  have hdN: "\<not> isWhiteSpace (hd (N @ rest))" for rest
    using N' by (cases ds) (simp_all add: class_facts)
  let ?r6 = "Cat (Grp 2 (Plus Dot)) Eol"
  let ?r5 = "Cat (Plus Space) ?r6"
  let ?r4 = "Cat ofThe ?r5"
  let ?r3 = "Cat (Star Space) ?r4"
  let ?r2 = "Cat (Grp 1 numTok) ?r3"
  let ?r1 = "Cat (Star Space) ?r2"
  have g2: "takes True n (Grp 2 (Plus Dot)) C ([] @ []) [(2, C)]"
    using C by (intro takes_Grp takes_Plus) simp_all
  from takes_Cat [OF g2 takes_Eol] have t6: "takes True n ?r6 C [] [(2, C)]" by simp
  have sp: "takes True n (Plus Space) ('' '' @ W1) (C @ []) []"
    using W1 C by (intro takes_Plus) (simp_all add: class_facts)
  from takes_Cat [OF sp t6] have t5: "takes True n ?r5 ('' '' @ W1 @ C) [] [(2, C)]" by simp
  have comma: "takes True n ofThe '','' (('' '' @ W1 @ C) @ []) []"
    unfolding ofThe_def by (intro takes_Alt1 takes_Lit) simp
  from takes_Cat [OF comma t5] have t4: "takes True n ?r4 ('', '' @ W1 @ C) [] [(2, C)]" by simp
  have nosp: "takes True n (Star Space) [] (('', '' @ W1 @ C) @ []) []"
    by (intro takes_Star) (simp_all add: class_facts)
  from takes_Cat [OF nosp t4] have t3: "takes True n ?r3 ('', '' @ W1 @ C) [] [(2, C)]" by simp
  have num: "takes True n numTok N (('', '' @ W1 @ C) @ []) []"
  proof -
    have "\<not> in_class Digit (hd (ls @ '', '' @ W1 @ C))"
      using N'(4) by (cases ls) (simp_all add: class_facts del: in_class.simps)
    then have d: "takes True n (Plus Digit) ds (ls @ '', '' @ W1 @ C) []"
      using N' by (intro takes_Plus) simp_all
    have l: "takes True n (Star Alpha) ls ('', '' @ W1 @ C) []"
      using N' by (intro takes_Star) (simp_all add: class_facts del: in_class.simps)
    from takes_Cat [OF d l] show ?thesis
      by (simp add: numTok_def N')
  qed
  have g1: "takes True n (Grp 1 numTok) N (('', '' @ W1 @ C) @ []) [(1, N)]"
    by (rule takes_Grp) (rule num)
  from takes_Cat [OF g1 t3] have t2: "takes True n ?r2 (N @ '', '' @ W1 @ C) [] [(2, C), (1, N)]" by simp
  have sp1: "takes True n (Star Space) '' '' ((N @ '', '' @ W1 @ C) @ []) []"
    using hdN by (intro takes_Star) (simp_all add: class_facts)
  from takes_Cat [OF sp1 t2] show ?thesis by simp
qed

section \<open>The round trip of a citation\<close>

lemma trim_Nil_iff: "trim R = [] \<longleftrightarrow> list_all isWhiteSpace R"
proof
  assume "trim R = []"
  then have "dropWhile isWhiteSpace (rev (dropWhile isWhiteSpace R)) = []"
    by (simp add: trim_def)
  then have all: "\<forall>c \<in> set (dropWhile isWhiteSpace R). isWhiteSpace c"
    by (simp add: dropWhile_eq_Nil_conv)
  have "dropWhile isWhiteSpace R = []"
  proof (rule ccontr)
    assume ne: "dropWhile isWhiteSpace R \<noteq> []"
    then have "\<not> isWhiteSpace (hd (dropWhile isWhiteSpace R))" by (rule hd_dropWhile)
    moreover from ne have "hd (dropWhile isWhiteSpace R) \<in> set (dropWhile isWhiteSpace R)"
      by simp
    ultimately show False using all by blast
  qed
  then show "list_all isWhiteSpace R"
    by (simp add: dropWhile_eq_Nil_conv list_all_iff)
next
  assume "list_all isWhiteSpace R"
  then show "trim R = []" by (rule trim_whitespace)
qed

lemma parse_canonical:
  assumes P: "P = ''Section'' \<or> P = ''Article''" and N: "numToken N"
    and R: "list_all (in_class Dot) R" "trim R \<noteq> []"
  shows "parseCitation (P @ '' '' @ N @ '', '' @ R) =
           Some \<lparr>documentRef = stripThe (trim R), sectionRef = Some N\<rparr>"
proof -
  let ?C = "trim R"
  from trim_decomp [OF R(2)] obtain W1 W2 where
    dec: "R = W1 @ ?C @ W2" "list_all isWhiteSpace W1" "list_all isWhiteSpace W2"
    and hdC: "\<not> isWhiteSpace (hd ?C)" and lastC: "\<not> isWhiteSpace (last ?C)"
    by blast
  let ?tail = "'' '' @ N @ '', '' @ W1 @ ?C"
  let ?y = "P @ ?tail"
  have dotC: "list_all (in_class Dot) ?C"
    using R(1) dec(1) by (metis list_all_append)
  have trimC: "trim ?C = ?C"
    using trim_core [of ?C "[]"] R(2) hdC lastC by simp
  have "trim (?y @ W2) = ?y"
  proof (rule trim_core)
    show "?y \<noteq> []" using P by auto
    show "\<not> isWhiteSpace (hd ?y)" using P by (auto simp: isWhiteSpace_def)
    show "\<not> isWhiteSpace (last ?y)" using lastC R(2) by simp
    show "list_all isWhiteSpace W2" by (rule dec(3))
  qed
  moreover have "P @ '' '' @ N @ '', '' @ R = ?y @ W2"
    using dec(1) by simp
  ultimately have trimmed: "trim (P @ '' '' @ N @ '', '' @ R) = ?y" by simp
  let ?n = "length ?y"
  let ?rt = "seq [Star Space, Grp 1 numTok, Star Space, ofThe, Plus Space, Grp 2 (Plus Dot), Eol]"
  have tail: "takes True ?n ?rt ?tail [] [(2, ?C), (1, N)]"
    using N dec(2) R(2) hdC dotC by (rule parse_tail_takes)
  have bol: "takes True ?n Bol [] (?y @ []) []"
    by (rule takes_Bol) simp
  have whole: "match_at True ?n (Cat Bol (Cat kw ?rt)) ?y = Some (?n, [(2, ?C), (1, N)])"
    if kw: "takes True ?n kw P (?tail @ []) []" for kw
  proof -
    from takes_Cat [OF kw tail] have "takes True ?n (Cat kw ?rt) ?y [] [(2, ?C), (1, N)]"
      by simp
    from takes_Cat [OF bol this] have "takes True ?n (Cat Bol (Cat kw ?rt)) ?y [] [(2, ?C), (1, N)]"
      by simp
    then show ?thesis by (rule takes_match_at)
  qed
  from P show ?thesis
  proof
    assume S: "P = ''Section''"
    have "takes True ?n secKw P (?tail @ []) []"
      unfolding secKw_def S alts.simps by (intro takes_Alt1 takes_Lit) simp
    from js_match_at_start [OF whole [OF this]]
    have m: "js_match True parse_secFirst ?y = Some \<lparr>index = 0, len = ?n, groups = [(2, ?C), (1, N)]\<rparr>"
      by (simp add: parse_secFirst_def)
    show ?thesis
      unfolding parseCitation_def Let_def trimmed m
      by (simp add: grpText_def grp_def trimC)
  next
    assume A: "P = ''Article''"
    have "match_at True ?n parse_secFirst ?y = None"
      by (simp add: A match_at_def parse_secFirst_def secKw_def canon_Char)
    then have no: "js_match True parse_secFirst ?y = None"
      unfolding parse_secFirst_def seq.simps by (rule js_match_anchored_None)
    have "takes True ?n artKw P (?tail @ []) []"
      unfolding artKw_def A alts.simps by (intro takes_Alt1 takes_Lit) simp
    from js_match_at_start [OF whole [OF this]]
    have m: "js_match True parse_artFirst ?y = Some \<lparr>index = 0, len = ?n, groups = [(2, ?C), (1, N)]\<rparr>"
      by (simp add: parse_artFirst_def)
    show ?thesis
      unfolding parseCitation_def Let_def trimmed no m
      by (simp add: grpText_def grp_def trimC)
  qed
qed

lemma search_Some:
  "search ci n r s = Some m \<Longrightarrow>
   \<exists>pre s0 l. s = pre @ s0 \<and> match_at ci n r s0 = Some (l, groups m)"
proof (induction s)
  case Nil
  show ?case
  proof (cases "match_at ci n r []")
    case None
    from Nil have False by (simp add: None)
    then show ?thesis ..
  next
    case (Some a)
    obtain l cs where a: "a = (l, cs)" by (cases a)
    from Nil have "\<lparr>index = n, len = l, groups = cs\<rparr> = m"
      by (simp add: Some a)
    then have "groups m = cs" by (cases m) simp
    with Some a have "match_at ci n r [] = Some (l, groups m)" by simp
    then show ?thesis
      by (intro exI [of _ "[]"] exI [of _ l]) simp
  qed
next
  case (Cons c s)
  show ?case
  proof (cases "match_at ci n r (c # s)")
    case None
    from Cons.prems have "search ci n r s = Some m" by (simp add: None)
    from Cons.IH [OF this] obtain pre s0 l where
      "s = pre @ s0" "match_at ci n r s0 = Some (l, groups m)" by blast
    then have "c # s = (c # pre) @ s0 \<and> match_at ci n r s0 = Some (l, groups m)" by simp
    then show ?thesis by blast
  next
    case (Some a)
    obtain l cs where a: "a = (l, cs)" by (cases a)
    from Cons.prems have "\<lparr>index = n - length (c # s), len = l, groups = cs\<rparr> = m"
      by (simp add: Some a)
    then have "groups m = cs" by (cases m) simp
    with Some a have "c # s = [] @ (c # s) \<and> match_at ci n r (c # s) = Some (l, groups m)"
      by simp
    then show ?thesis by blast
  qed
qed

lemma match_at_denotes:
  assumes "match_at ci n r s0 = Some (l, cs)"
  shows "\<exists>u rest. s0 = u @ rest \<and> denotes ci n r u rest cs"
proof -
  from assms
  have "rmatch ci n r (\<lambda>s' cs. Some (length s0 - length s', cs)) s0 [] = Some (l, cs)"
    by (simp add: match_at_def)
  from rmatch_sound [OF this] obtain u rest cs' where
    "s0 = u @ rest" "denotes ci n r u rest cs'" "Some (length s0 - length rest, cs' @ []) = Some (l, cs)"
    by blast
  then have "s0 = u @ rest \<and> denotes ci n r u rest cs" by simp
  then show ?thesis by blast
qed

lemma js_match_denotes:
  assumes "js_match ci (Cat Bol r) t = Some m"
  shows "\<exists>u rest. t = u @ rest \<and> denotes ci (length t) r u rest (groups m)"
proof -
  from assms have "search ci (length t) (Cat Bol r) t = Some m"
    by (simp add: js_match_def)
  from search_Some [OF this] obtain pre s0 l where
    t: "t = pre @ s0" and "match_at ci (length t) (Cat Bol r) s0 = Some (l, groups m)"
    by blast
  from match_at_denotes [OF this(2)] obtain u rest where
    s0: "s0 = u @ rest" and d: "denotes ci (length t) (Cat Bol r) u rest (groups m)"
    by blast
  from d obtain u1 u2 c1 c2 where
    c: "u = u1 @ u2" "groups m = c2 @ c1" "denotes ci (length t) Bol u1 (u2 @ rest) c1"
      "denotes ci (length t) r u2 rest c2"
    unfolding denotes.simps by blast
  from c(3) have b: "u1 = []" "c1 = []" "length (u2 @ rest) = length t" by simp_all
  with t s0 c(1) have "pre = []" by simp
  with t s0 c b have "t = u @ rest \<and> denotes ci (length t) r u rest (groups m)" by simp
  then show ?thesis by blast
qed

lemma keyword_captures:
  "denotes ci n secKw u rest cs \<Longrightarrow> cs = []"
  "denotes ci n artKw u rest cs \<Longrightarrow> cs = []"
  "denotes ci n (Opt (Cls (OneOf '',;''))) u rest cs \<Longrightarrow> cs = []"
  by (auto simp: secKw_def artKw_def)

lemma denotes_CatE:
  assumes "denotes ci n (Cat r r') u rest cs"
  obtains u1 u2 c1 c2 where "u = u1 @ u2" "cs = c2 @ c1"
    "denotes ci n r u1 (u2 @ rest) c1" "denotes ci n r' u2 rest c2"
  using assms by auto

lemma denotes_leaves:
  "denotes ci n (Grp g numTok) N rest c \<Longrightarrow> c = [(g, N)] \<and> numToken N"
  "denotes ci n (Grp g (Plus Dot)) R rest c \<Longrightarrow>
     c = [(g, R)] \<and> R \<noteq> [] \<and> list_all (in_class Dot) R"
  "denotes ci n (Grp g (PlusLazy Dot)) R rest c \<Longrightarrow>
     c = [(g, R)] \<and> R \<noteq> [] \<and> list_all (in_class Dot) R"
  "denotes ci n (Star cl) w rest c \<Longrightarrow> c = []"
  "denotes ci n (Plus cl) w rest c \<Longrightarrow> c = []"
  "denotes ci n Eol w rest c \<Longrightarrow> c = [] \<and> w = [] \<and> rest = []"
  by (auto simp: numTok_def numToken_def)

lemma leading_groups:
  assumes m: "js_match True
      (Cat Bol (Cat kw (seq [Star Space, Grp 1 numTok, Star Space, sep, Plus Space,
         Grp 2 (Plus Dot), Eol]))) t = Some m"
    and kw: "\<And>u rest cs. denotes True (length t) kw u rest cs \<Longrightarrow> cs = []"
    and sep: "\<And>u rest cs. denotes True (length t) sep u rest cs \<Longrightarrow> cs = []"
  shows "\<exists>N R pre. t = pre @ R \<and> grp m 1 = Some N \<and> grp m 2 = Some R \<and> numToken N \<and>
           R \<noteq> [] \<and> list_all (in_class Dot) R"
proof -
  from js_match_denotes [OF m] obtain u rest where
    t: "t = u @ rest" and
    d: "denotes True (length t)
          (Cat kw (seq [Star Space, Grp 1 numTok, Star Space, sep, Plus Space,
             Grp 2 (Plus Dot), Eol])) u rest (groups m)"
    by blast
  from d have "denotes True (length t)
      (Cat kw (Cat (Star Space) (Cat (Grp 1 numTok) (Cat (Star Space) (Cat sep (Cat (Plus Space)
         (Cat (Grp 2 (Plus Dot)) Eol))))))) u rest (groups m)"
    by (simp only: seq.simps)
  then obtain ukw u1 ckw c1 where
    s1: "u = ukw @ u1" "groups m = c1 @ ckw" "denotes True (length t) kw ukw (u1 @ rest) ckw"
      "denotes True (length t) (Cat (Star Space) (Cat (Grp 1 numTok) (Cat (Star Space)
         (Cat sep (Cat (Plus Space) (Cat (Grp 2 (Plus Dot)) Eol)))))) u1 rest c1"
    by (rule denotes_CatE)
  from s1(4) obtain w1 u2 cw1 c2 where
    s2: "u1 = w1 @ u2" "c1 = c2 @ cw1" "denotes True (length t) (Star Space) w1 (u2 @ rest) cw1"
      "denotes True (length t) (Cat (Grp 1 numTok) (Cat (Star Space)
         (Cat sep (Cat (Plus Space) (Cat (Grp 2 (Plus Dot)) Eol))))) u2 rest c2"
    by (rule denotes_CatE)
  from s2(4) obtain N u3 cN c3 where
    s3: "u2 = N @ u3" "c2 = c3 @ cN" "denotes True (length t) (Grp 1 numTok) N (u3 @ rest) cN"
      "denotes True (length t) (Cat (Star Space)
         (Cat sep (Cat (Plus Space) (Cat (Grp 2 (Plus Dot)) Eol)))) u3 rest c3"
    by (rule denotes_CatE)
  from s3(4) obtain w2 u4 cw2 c4 where
    s4: "u3 = w2 @ u4" "c3 = c4 @ cw2" "denotes True (length t) (Star Space) w2 (u4 @ rest) cw2"
      "denotes True (length t) (Cat sep (Cat (Plus Space) (Cat (Grp 2 (Plus Dot)) Eol))) u4 rest c4"
    by (rule denotes_CatE)
  from s4(4) obtain usep u5 csep c5 where
    s5: "u4 = usep @ u5" "c4 = c5 @ csep" "denotes True (length t) sep usep (u5 @ rest) csep"
      "denotes True (length t) (Cat (Plus Space) (Cat (Grp 2 (Plus Dot)) Eol)) u5 rest c5"
    by (rule denotes_CatE)
  from s5(4) obtain w3 u6 cw3 c6 where
    s6: "u5 = w3 @ u6" "c5 = c6 @ cw3" "denotes True (length t) (Plus Space) w3 (u6 @ rest) cw3"
      "denotes True (length t) (Cat (Grp 2 (Plus Dot)) Eol) u6 rest c6"
    by (rule denotes_CatE)
  from s6(4) obtain R u7 cR c7 where
    s7: "u6 = R @ u7" "c6 = c7 @ cR" "denotes True (length t) (Grp 2 (Plus Dot)) R (u7 @ rest) cR"
      "denotes True (length t) Eol u7 rest c7"
    by (rule denotes_CatE)
  note u = s1(1) s2(1) s3(1) s4(1) s5(1) s6(1) s7(1)
  note c = s1(2) s2(2) s3(2) s4(2) s5(2) s6(2) s7(2)
  note leaves = s1(3) s2(3) s3(3) s4(3) s5(3) s6(3) s7(3) s7(4)
  from leaves(8) have e: "c7 = []" "u7 = []" "rest = []"
    using denotes_leaves(6) by blast+
  from leaves(3) have n: "cN = [(1, N)]" "numToken N"
    using denotes_leaves(1) by blast+
  from leaves(7) have r: "cR = [(2, R)]" "R \<noteq> []" "list_all (in_class Dot) R"
    using denotes_leaves(2) by blast+
  from c kw [OF leaves(1)] sep [OF leaves(5)] denotes_leaves(4) [OF leaves(2)]
    denotes_leaves(4) [OF leaves(4)] denotes_leaves(5) [OF leaves(6)] e(1) n(1) r(1)
  have g: "groups m = [(2, R), (1, N)]" by simp
  from t u e have "t = (ukw @ w1 @ N @ w2 @ usep @ w3) @ R" by simp
  with g n(2) r(2,3) show ?thesis
    by (auto simp: grp_def)
qed

lemma trailing_groups:
  assumes m: "js_match True
      (Cat Bol (seq [Grp 1 (PlusLazy Dot), Opt (Cls (OneOf '',;'')), Star Space, kw, Star Space,
         Grp 2 numTok, Eol])) t = Some m"
    and kw: "\<And>u rest cs. denotes True (length t) kw u rest cs \<Longrightarrow> cs = []"
  shows "\<exists>N R post. t = R @ post \<and> grp m 2 = Some N \<and> grp m 1 = Some R \<and> numToken N \<and>
           R \<noteq> [] \<and> list_all (in_class Dot) R"
proof -
  from js_match_denotes [OF m] obtain u rest where
    t: "t = u @ rest" and
    d: "denotes True (length t)
          (seq [Grp 1 (PlusLazy Dot), Opt (Cls (OneOf '',;'')), Star Space, kw, Star Space,
             Grp 2 numTok, Eol]) u rest (groups m)"
    by blast
  from d have "denotes True (length t)
      (Cat (Grp 1 (PlusLazy Dot)) (Cat (Opt (Cls (OneOf '',;''))) (Cat (Star Space) (Cat kw
         (Cat (Star Space) (Cat (Grp 2 numTok) Eol)))))) u rest (groups m)"
    by (simp only: seq.simps)
  then obtain R u1 cR c1 where
    s1: "u = R @ u1" "groups m = c1 @ cR"
      "denotes True (length t) (Grp 1 (PlusLazy Dot)) R (u1 @ rest) cR"
      "denotes True (length t) (Cat (Opt (Cls (OneOf '',;''))) (Cat (Star Space) (Cat kw
         (Cat (Star Space) (Cat (Grp 2 numTok) Eol))))) u1 rest c1"
    by (rule denotes_CatE)
  from s1(4) obtain uo u2 co c2 where
    s2: "u1 = uo @ u2" "c1 = c2 @ co"
      "denotes True (length t) (Opt (Cls (OneOf '',;''))) uo (u2 @ rest) co"
      "denotes True (length t) (Cat (Star Space) (Cat kw
         (Cat (Star Space) (Cat (Grp 2 numTok) Eol)))) u2 rest c2"
    by (rule denotes_CatE)
  from s2(4) obtain w1 u3 cw1 c3 where
    s3: "u2 = w1 @ u3" "c2 = c3 @ cw1" "denotes True (length t) (Star Space) w1 (u3 @ rest) cw1"
      "denotes True (length t) (Cat kw (Cat (Star Space) (Cat (Grp 2 numTok) Eol))) u3 rest c3"
    by (rule denotes_CatE)
  from s3(4) obtain ukw u4 ckw c4 where
    s4: "u3 = ukw @ u4" "c3 = c4 @ ckw" "denotes True (length t) kw ukw (u4 @ rest) ckw"
      "denotes True (length t) (Cat (Star Space) (Cat (Grp 2 numTok) Eol)) u4 rest c4"
    by (rule denotes_CatE)
  from s4(4) obtain w2 u5 cw2 c5 where
    s5: "u4 = w2 @ u5" "c4 = c5 @ cw2" "denotes True (length t) (Star Space) w2 (u5 @ rest) cw2"
      "denotes True (length t) (Cat (Grp 2 numTok) Eol) u5 rest c5"
    by (rule denotes_CatE)
  from s5(4) obtain N u6 cN c6 where
    s6: "u5 = N @ u6" "c5 = c6 @ cN" "denotes True (length t) (Grp 2 numTok) N (u6 @ rest) cN"
      "denotes True (length t) Eol u6 rest c6"
    by (rule denotes_CatE)
  note u = s1(1)
  note c = s1(2) s2(2) s3(2) s4(2) s5(2) s6(2)
  note leaves = s1(3) s2(3) s3(3) s4(3) s5(3) s6(3) s6(4)
  from leaves(7) have e: "c6 = []"
    using denotes_leaves(6) by blast
  from leaves(6) have n: "cN = [(2, N)]" "numToken N"
    using denotes_leaves(1) by blast+
  from leaves(1) have r: "cR = [(1, R)]" "R \<noteq> []" "list_all (in_class Dot) R"
    using denotes_leaves(3) by blast+
  from c kw [OF leaves(4)] keyword_captures(3) [OF leaves(2)] denotes_leaves(4) [OF leaves(3)]
    denotes_leaves(4) [OF leaves(5)] e n(1) r(1)
  have g: "groups m = [(2, N), (1, R)]" by simp
  from t u have "t = R @ (u1 @ rest)" by simp
  with g n(2) r(2,3) show ?thesis
    by (auto simp: grp_def)
qed


lemma trim_trim: "trim (trim x) = trim x"
proof (cases "trim x = []")
  case True
  then show ?thesis by (simp add: trim_Nil)
next
  case False
  from trim_decomp(2,3) [OF False] False
  have "trim (trim x @ []) = trim x"
    by (intro trim_core) simp_all
  then show ?thesis by simp
qed

lemma suffix_of_trimmed:
  assumes "trim x = pre @ R" "R \<noteq> []"
  shows "trim R \<noteq> []"
proof
  assume "trim R = []"
  then have "list_all isWhiteSpace R" by (simp add: trim_Nil_iff)
  with assms(2) have "isWhiteSpace (last R)" by (simp add: list_all_iff)
  moreover from assms have ne: "trim x \<noteq> []" by simp
  from assms have "last (trim x) = last R" by simp
  ultimately show False using trim_decomp(3) [OF ne] by simp
qed

lemma prefix_of_trimmed:
  assumes "trim x = R @ post" "R \<noteq> []"
  shows "trim R \<noteq> []"
proof
  assume "trim R = []"
  then have "list_all isWhiteSpace R" by (simp add: trim_Nil_iff)
  with assms(2) have "isWhiteSpace (hd R)" by (simp add: list_all_iff)
  moreover from assms have ne: "trim x \<noteq> []" by simp
  from assms have "hd (trim x) = hd R" by simp
  ultimately show False using trim_decomp(2) [OF ne] by simp
qed

lemma format_leading:
  assumes "js_match True format_secFirst (trim x) = Some m \<or>
           js_match True format_artFirst (trim x) = Some m"
  shows "\<exists>N R. grp m 1 = Some N \<and> grp m 2 = Some R \<and> numToken N \<and>
           list_all (in_class Dot) R \<and> trim R \<noteq> []"
proof -
  have sec: "format_secFirst = Cat Bol (Cat secKw (seq [Star Space, Grp 1 numTok, Star Space,
      Opt (Cls (OneOf '',;'')), Plus Space, Grp 2 (Plus Dot), Eol]))"
    by (simp add: format_secFirst_def)
  have art: "format_artFirst = Cat Bol (Cat artKw (seq [Star Space, Grp 1 numTok, Star Space,
      Opt (Cls (OneOf '',;'')), Plus Space, Grp 2 (Plus Dot), Eol]))"
    by (simp add: format_artFirst_def)
  from assms have "\<exists>N R pre. trim x = pre @ R \<and> grp m 1 = Some N \<and> grp m 2 = Some R \<and>
      numToken N \<and> R \<noteq> [] \<and> list_all (in_class Dot) R"
  proof
    assume "js_match True format_secFirst (trim x) = Some m"
    then show ?thesis
      unfolding sec
      by (rule leading_groups) (rule keyword_captures; assumption)+
  next
    assume "js_match True format_artFirst (trim x) = Some m"
    then show ?thesis
      unfolding art
      by (rule leading_groups) (rule keyword_captures; assumption)+
  qed
  then obtain N R pre where "trim x = pre @ R" "grp m 1 = Some N" "grp m 2 = Some R"
    "numToken N" "R \<noteq> []" "list_all (in_class Dot) R"
    by blast
  with suffix_of_trimmed [of x pre R] show ?thesis by blast
qed

lemma format_trailing:
  assumes "js_match True format_secLast (trim x) = Some m \<or>
           js_match True format_artLast (trim x) = Some m"
  shows "\<exists>N R. grp m 2 = Some N \<and> grp m 1 = Some R \<and> numToken N \<and>
           list_all (in_class Dot) R \<and> trim R \<noteq> []"
proof -
  have sec: "format_secLast = Cat Bol (seq [Grp 1 (PlusLazy Dot), Opt (Cls (OneOf '',;'')),
      Star Space, secKw, Star Space, Grp 2 numTok, Eol])"
    by (simp add: format_secLast_def)
  have art: "format_artLast = Cat Bol (seq [Grp 1 (PlusLazy Dot), Opt (Cls (OneOf '',;'')),
      Star Space, artKw, Star Space, Grp 2 numTok, Eol])"
    by (simp add: format_artLast_def)
  from assms have "\<exists>N R post. trim x = R @ post \<and> grp m 2 = Some N \<and> grp m 1 = Some R \<and>
      numToken N \<and> R \<noteq> [] \<and> list_all (in_class Dot) R"
  proof
    assume "js_match True format_secLast (trim x) = Some m"
    then show ?thesis
      unfolding sec
      by (rule trailing_groups) (rule keyword_captures; assumption)
  next
    assume "js_match True format_artLast (trim x) = Some m"
    then show ?thesis
      unfolding art
      by (rule trailing_groups) (rule keyword_captures; assumption)
  qed
  then obtain N R post where "trim x = R @ post" "grp m 2 = Some N" "grp m 1 = Some R"
    "numToken N" "R \<noteq> []" "list_all (in_class Dot) R"
    by blast
  with prefix_of_trimmed [of x R post] show ?thesis by blast
qed


lemma numToken_nonempty: "numToken N \<Longrightarrow> N \<noteq> []"
  by (auto simp: numToken_def)

lemma formatter_reads:
  "(formatSection x = None \<and> formatted (formatCitationTool x None) = trim x) \<or>
   (\<exists>N P. formatSection x = Some N \<and> numToken N \<and> list_all (in_class Dot) (formatLaw x) \<and>
      trim (formatLaw x) \<noteq> [] \<and> (P = ''Section'' \<or> P = ''Article'') \<and>
      formatted (formatCitationTool x None) = P @ '' '' @ N @ '', '' @ formatLaw x)"
proof -
  let ?sF = "js_match True format_secFirst (trim x)"
  let ?sL = "js_match True format_secLast (trim x)"
  let ?aF = "js_match True format_artFirst (trim x)"
  let ?aL = "js_match True format_artLast (trim x)"
  let ?P = "if ?aF \<noteq> None \<or> ?aL \<noteq> None then ''Article'' else ''Section''"
  have P: "?P = ''Section'' \<or> ?P = ''Article''" by simp
  consider (a) m where "?sF = Some m"
    | (b) m where "?sF = None" "?sL = Some m"
    | (c) m where "?sF = None" "?sL = None" "?aF = Some m"
    | (d) m where "?sF = None" "?sL = None" "?aF = None" "?aL = Some m"
    | (e) "?sF = None" "?sL = None" "?aF = None" "?aL = None"
    by blast
  then show ?thesis
  proof cases
    case a
    from format_leading [of x m] a obtain N R where
      g: "grp m 1 = Some N" "grp m 2 = Some R" and
      f: "numToken N" "list_all (in_class Dot) R" "trim R \<noteq> []"
      by blast
    have "formatSection x = Some N" "formatLaw x = R"
      "formatted (formatCitationTool x None) = ?P @ '' '' @ N @ '', '' @ R"
      using numToken_nonempty [OF f(1)] g
      by (simp_all add: formatSection_def formatLaw_def formatCitationTool_def Let_def a
            opt_group_def orElse_def truthy_def)
    with f P show ?thesis by blast
  next
    case b
    from format_trailing [of x m] b obtain N R where
      g: "grp m 2 = Some N" "grp m 1 = Some R" and
      f: "numToken N" "list_all (in_class Dot) R" "trim R \<noteq> []"
      by blast
    have "formatSection x = Some N" "formatLaw x = R"
      "formatted (formatCitationTool x None) = ?P @ '' '' @ N @ '', '' @ R"
      using numToken_nonempty [OF f(1)] g
      by (simp_all add: formatSection_def formatLaw_def formatCitationTool_def Let_def b
            opt_group_def orElse_def truthy_def)
    with f P show ?thesis by blast
  next
    case c
    from format_leading [of x m] c obtain N R where
      g: "grp m 1 = Some N" "grp m 2 = Some R" and
      f: "numToken N" "list_all (in_class Dot) R" "trim R \<noteq> []"
      by blast
    have "formatSection x = Some N" "formatLaw x = R"
      "formatted (formatCitationTool x None) = ?P @ '' '' @ N @ '', '' @ R"
      using numToken_nonempty [OF f(1)] g
      by (simp_all add: formatSection_def formatLaw_def formatCitationTool_def Let_def c
            opt_group_def orElse_def truthy_def)
    with f P show ?thesis by blast
  next
    case d
    from format_trailing [of x m] d obtain N R where
      g: "grp m 2 = Some N" "grp m 1 = Some R" and
      f: "numToken N" "list_all (in_class Dot) R" "trim R \<noteq> []"
      by blast
    have "formatSection x = Some N" "formatLaw x = R"
      "formatted (formatCitationTool x None) = ?P @ '' '' @ N @ '', '' @ R"
      using numToken_nonempty [OF f(1)] g
      by (simp_all add: formatSection_def formatLaw_def formatCitationTool_def Let_def d
            opt_group_def orElse_def truthy_def)
    with f P show ?thesis by blast
  next
    case e
    then have "formatSection x = None \<and> formatted (formatCitationTool x None) = trim x"
      by (simp add: formatSection_def formatCitationTool_def Let_def opt_group_def orElse_def
            truthy_def)
    then show ?thesis by blast
  qed
qed

lemma parseCitation_trim: "parseCitation (trim x) = parseCitation x"
  by (simp add: parseCitation_def trim_trim)




end
